theory Spec2Isabelle
  imports Main "HOL-Library.Word"
begin

unbundle bit_operations_syntax

section \<open>Physical memory map (pmap.c)\<close>

text \<open>
  A \<open>pmapregion_t\<close> has two unsigned 64-bit fields and a signed 32-bit type. The type is
  only stored, compared and tested for equality, never computed with, so it is kept as
  the integer value of the \<open>int32_t\<close>.
\<close>

record pmapregion =
  addr :: "64 word"
  rsize :: "64 word"
  rtype :: int
  rflags :: "32 word"

record pmap =
  regions :: "pmapregion list"
  last_usable :: "64 word"

definition PMEMTYPE_USABLE :: int where "PMEMTYPE_USABLE = 1"

definition PMEMTYPE_RESERVED :: int where "PMEMTYPE_RESERVED = 2"

definition PMEMTYPE_ACPI :: int where "PMEMTYPE_ACPI = 3"

definition PMEMTYPE_ACPI_NVS :: int where "PMEMTYPE_ACPI_NVS = 4"

definition PMEMTYPE_BAD :: int where "PMEMTYPE_BAD = 5"

definition PMEMTYPE_UNCACHED :: int where "PMEMTYPE_UNCACHED = 6"

definition PMEMTYPE_UNMAPPED :: int where "PMEMTYPE_UNMAPPED = 7"

definition add_region :: "64 word \<Rightarrow> 64 word \<Rightarrow> int \<Rightarrow> pmapregion list \<Rightarrow> pmapregion list" where
  "add_region a s t rs = rs @ [\<lparr>addr = a, rsize = s, rtype = t, rflags = 0\<rparr>]"

definition cmp_region :: "pmapregion \<Rightarrow> pmapregion \<Rightarrow> int" where
  "cmp_region r1 r2 =
     (if addr r1 > addr r2 then 1
      else if addr r1 < addr r2 then -1
      else if rsize r1 > rsize r2 then 1
      else if rsize r1 < rsize r2 then -1
      else 0)"

text \<open>
  Modelled from the spec: \<open>qsort\<close> (libc/stdlib.h) is not part of the sources at hand. The
  spec says "Sort by (addr, size)"; the model inserts each record in front of the first
  record that does not compare below it under \<open>cmp_region\<close>.
\<close>

fun qsort_insert :: "pmapregion \<Rightarrow> pmapregion list \<Rightarrow> pmapregion list" where
  "qsort_insert x [] = [x]"
| "qsort_insert x (y # ys) =
     (if cmp_region x y \<le> 0 then x # y # ys else y # qsort_insert x ys)"

definition qsort :: "pmapregion list \<Rightarrow> pmapregion list" where
  "qsort rs = foldr qsort_insert rs []"

text \<open>
  \<open>resort(r, term)\<close>: the record at \<open>r\<close> is swapped forward while it does not compare
  below its successor. The list is the part of the array from \<open>r\<close> to \<open>term\<close>.
\<close>

fun resort :: "pmapregion list \<Rightarrow> pmapregion list" where
  "resort (r0 # r1 # rest) =
     (if cmp_region r0 r1 < 0 then r0 # r1 # rest else r1 # resort (r0 # rest))"
| "resort rs = rs"

text \<open>
  \<open>collapse_overlaps\<close>: the list is the part of the array from \<open>curr\<close> to \<open>term\<close>; records
  before \<open>curr\<close> are never touched again, so \<open>curr++\<close> emits the head. \<open>collapse(curr, term--)\<close>
  drops the head, \<open>collapse(next, term--)\<close> drops the second record, and
  \<open>insertafter(next, term++)\<close> opens a slot behind the second record. The loop carries no
  bound of its own, so not returning is the value \<open>None\<close>.
\<close>

partial_function (option) collapse_overlaps :: "pmapregion list \<Rightarrow> pmapregion list option" where
  "collapse_overlaps rs =
     (case rs of
        cur # nxt # rest \<Rightarrow>
          if rsize cur = 0 then collapse_overlaps (nxt # rest)
          else
            let cl = addr cur; cr = addr cur + rsize cur;
                nl = addr nxt; nr = addr nxt + rsize nxt
            in
              if min cr nr \<le> max cl nl then
                Option.bind (collapse_overlaps (nxt # rest)) (\<lambda>out. Some (cur # out))
              else if cl = nl then
                (if cr = nr then
                   (if rtype nxt > rtype cur then collapse_overlaps (nxt # rest)
                    else collapse_overlaps (cur # rest))
                 else
                   (if rtype nxt > rtype cur then collapse_overlaps (nxt # rest)
                    else collapse_overlaps
                           (cur # resort (nxt\<lparr>rsize := nr - cr, addr := cr\<rparr> # rest))))
              else
                (if cr = nr then
                   (if rtype nxt > rtype cur
                    then collapse_overlaps (cur\<lparr>rsize := nl - cl\<rparr> # nxt # rest)
                    else collapse_overlaps (cur # rest))
                 else if cr < nr then
                   (if rtype nxt > rtype cur
                    then collapse_overlaps (cur\<lparr>rsize := nl - cl\<rparr> # nxt # rest)
                    else collapse_overlaps
                           (cur # resort (nxt\<lparr>rsize := nr - cr, addr := cr\<rparr> # rest)))
                 else
                   (if rtype nxt > rtype cur
                    then collapse_overlaps
                           (cur\<lparr>rsize := nl - cl\<rparr> # nxt #
                            resort (\<lparr>addr = nr, rsize = cr - nr, rtype = rtype cur,
                                     rflags = rflags cur\<rparr> # rest))
                    else collapse_overlaps (cur # rest)))
      | _ \<Rightarrow> Some rs)"

declare collapse_overlaps.simps [code]

text \<open>The weight of a list for \<open>fill_gaps\<close>: a gap between neighbours costs three, a joint one.\<close>

fun gap_weight :: "pmapregion list \<Rightarrow> nat" where
  "gap_weight (c # n # rest) =
     (if addr c + rsize c = addr n then 1 else 3) + gap_weight (n # rest)"
| "gap_weight rs = 0"

function fill_gaps :: "int \<Rightarrow> pmapregion list \<Rightarrow> pmapregion list" where
  "fill_gaps t (cur # nxt # rest) =
     (let cr = addr cur + rsize cur; nl = addr nxt
      in
        if cr = nl then cur # fill_gaps t (nxt # rest)
        else if rtype cur = t then
          fill_gaps t (cur\<lparr>rsize := rsize cur + (nl - cr)\<rparr> # nxt # rest)
        else if rtype nxt = t then
          fill_gaps t (cur # nxt\<lparr>rsize := rsize nxt + (nl - cr), addr := cr\<rparr> # rest)
        else
          fill_gaps t (cur # \<lparr>addr = cr, rsize = nl - cr, rtype = t, rflags = 0\<rparr> # nxt # rest))"
| "fill_gaps t [] = []"
| "fill_gaps t [r] = [r]"
  by pat_completeness auto

termination
proof (relation "measure (\<lambda>(t, rs). gap_weight rs)")
  show "wf (measure (\<lambda>(t, rs). gap_weight rs))" by simp
next
  fix t :: int and cur nxt :: pmapregion and rest
  show "((t, nxt # rest), t, cur # nxt # rest) \<in> measure (\<lambda>(t, rs). gap_weight rs)"
    by simp
next
  fix t :: int and cur nxt :: pmapregion and rest x xa
  assume "x = addr cur + rsize cur" "xa = addr nxt" "x \<noteq> xa"
  then show "((t, cur\<lparr>rsize := rsize cur + (xa - x)\<rparr> # nxt # rest), t, cur # nxt # rest)
      \<in> measure (\<lambda>(t, rs). gap_weight rs)"
    by simp
next
  fix t :: int and cur nxt :: pmapregion and rest x xa
  assume "x = addr cur + rsize cur" "xa = addr nxt" "x \<noteq> xa"
  then show "((t, cur # nxt\<lparr>rsize := rsize nxt + (xa - x), addr := x\<rparr> # rest), t,
       cur # nxt # rest) \<in> measure (\<lambda>(t, rs). gap_weight rs)"
    by (cases rest) (simp_all add: add.commute)
next
  fix t :: int and cur nxt :: pmapregion and rest x xa
  assume "x = addr cur + rsize cur" "xa = addr nxt" "x \<noteq> xa"
  then show "((t, cur # \<lparr>addr = x, rsize = xa - x, rtype = t, rflags = 0\<rparr> # nxt # rest), t,
       cur # nxt # rest) \<in> measure (\<lambda>(t, rs). gap_weight rs)"
    by simp
qed

fun consolidate_neighbors :: "pmapregion list \<Rightarrow> pmapregion list" where
  "consolidate_neighbors (cur # nxt # rest) =
     (if rtype cur = rtype nxt
      then consolidate_neighbors (cur\<lparr>rsize := rsize cur + rsize nxt\<rparr> # rest)
      else cur # consolidate_neighbors (nxt # rest))"
| "consolidate_neighbors rs = rs"

text \<open>\<open>update_last_usable\<close> scans from the highest index down to the first Usable record.\<close>

definition update_last_usable :: "pmapregion list \<Rightarrow> 64 word" where
  "update_last_usable rs =
     (case find (\<lambda>r. rtype r = PMEMTYPE_USABLE) (rev rs) of
        None \<Rightarrow> 0
      | Some r \<Rightarrow> addr r + rsize r)"

definition pmap_normalize :: "pmapregion list \<Rightarrow> pmap option" where
  "pmap_normalize rs =
     Option.bind (collapse_overlaps (qsort rs))
       (\<lambda>c. let out = consolidate_neighbors (fill_gaps PMEMTYPE_RESERVED c)
            in Some \<lparr>regions = out, last_usable = update_last_usable out\<rparr>)"

text \<open>
  \<open>pmap_add\<close>: the static flag \<open>initialized\<close> is a parameter. \<open>kmain\<close> calls \<open>acpi_init\<close>
  before \<open>pmap_init\<close> (flag clear: the region is only appended) and \<open>page_init\<close> after it
  (flag set: the map is normalized again).
\<close>

definition pmap_add :: "bool \<Rightarrow> 64 word \<Rightarrow> 64 word \<Rightarrow> int \<Rightarrow> pmap \<Rightarrow> pmap option" where
  "pmap_add initialized a s t pm =
     (let rs = add_region a s t (regions pm)
      in if initialized then pmap_normalize rs else Some (pm\<lparr>regions := rs\<rparr>))"

section \<open>Notions used to state and prove the properties of the memory map\<close>

definition lo :: "pmapregion \<Rightarrow> nat" where "lo r = unat (addr r)"

definition hi :: "pmapregion \<Rightarrow> nat" where "hi r = unat (addr r) + unat (rsize r)"








definition lower_bound :: "nat \<Rightarrow> pmapregion list \<Rightarrow> bool" where
  "lower_bound m rs = (\<forall>r\<in>set rs. m \<le> lo r)"


definition covered :: "pmapregion list \<Rightarrow> nat \<Rightarrow> bool" where
  "covered rs b = (\<exists>r\<in>set rs. lo r \<le> b \<and> b < hi r)"












section \<open>Physical memory and page-table entries (paging.h)\<close>

text \<open>
  Physical memory is one store shared by every page table: a map from the address of a
  64-bit cell to its value. All page tables of the kernel are arrays of 64-bit entries, and
  \<open>page->entry[i]\<close> is the cell at \<open>page + 8 * i\<close>. The kernel runs identity-mapped, so a
  pointer is the physical address it holds.
\<close>

type_synonym memory = "64 word \<Rightarrow> 64 word"

datatype error = Fatal | Out_of_bounds

definition ebind :: "error + 'a \<Rightarrow> ('a \<Rightarrow> error + 'b) \<Rightarrow> error + 'b" where
  "ebind m f = (case m of Inl e \<Rightarrow> Inl e | Inr x \<Rightarrow> f x)"

definition PAGE_SIZE :: "64 word" where "PAGE_SIZE = 0x1000"

definition PAGE_SIZE_LARGE :: "64 word" where "PAGE_SIZE_LARGE = 0x200000"

definition PAGE_SIZE_HUGE :: "64 word" where "PAGE_SIZE_HUGE = 0x40000000"

definition PF_PRESENT :: "64 word" where "PF_PRESENT = 0x1"

definition PF_RW :: "64 word" where "PF_RW = 0x2"

definition PF_USER :: "64 word" where "PF_USER = 0x4"

definition PF_PWT :: "64 word" where "PF_PWT = 0x8"

definition PF_PCD :: "64 word" where "PF_PCD = 0x10"

definition PF_ACCESS :: "64 word" where "PF_ACCESS = 0x20"

definition PF_DIRTY :: "64 word" where "PF_DIRTY = 0x40"

definition PF_PS :: "64 word" where "PF_PS = 0x80"

definition PF_GLOBAL :: "64 word" where "PF_GLOBAL = 0x100"

definition PF_SYSTEM :: "64 word" where "PF_SYSTEM = 0x200"

definition PGMASK_ENTRY :: "64 word" where "PGMASK_ENTRY = 0x1ff"

definition PGMASK_OFFSET :: "64 word" where "PGMASK_OFFSET = 0x3ff"

definition PML4E :: "64 word \<Rightarrow> 64 word" where "PML4E a = drop_bit 39 a AND PGMASK_ENTRY"

definition PDPTE :: "64 word \<Rightarrow> 64 word" where "PDPTE a = drop_bit 30 a AND PGMASK_ENTRY"

definition PDE :: "64 word \<Rightarrow> 64 word" where "PDE a = drop_bit 21 a AND PGMASK_ENTRY"

definition PTE :: "64 word \<Rightarrow> 64 word" where "PTE a = drop_bit 12 a AND PGMASK_ENTRY"

text \<open>\<open>PGPTR(pte)\<close> is \<open>pte & ~PGMASK_OFFSET\<close>: it clears the ten low bits.\<close>

definition PGPTR :: "64 word \<Rightarrow> 64 word" where "PGPTR pte = pte AND NOT PGMASK_OFFSET"

definition entry :: "64 word \<Rightarrow> 64 word \<Rightarrow> 64 word" where
  "entry page i = page + 8 * i"

text \<open>\<open>memzero(p, n)\<close> clears every cell from \<open>p\<close> up to \<open>p + n\<close>.\<close>

definition memzero :: "memory \<Rightarrow> 64 word \<Rightarrow> 64 word \<Rightarrow> memory" where
  "memzero m p n = (\<lambda>a. if a - p < n then 0 else m a)"

record pagetable =
  proot :: "64 word"
  vroot :: "64 word"
  vnext :: "64 word"
  vterm :: "64 word"

section \<open>Kernel page table builder (kmem.c)\<close>

text \<open>
  Modelled from the spec: \<open>kmem.h\<close> is not part of the sources at hand. The comments of
  \<open>kmem_init\<close> and section 6 of the spec give the kernel page-table scratch area as
  \<open>[0x20000, 0x70000)\<close>.
\<close>

definition KMEM_KERNEL_PAGETABLE :: "64 word" where "KMEM_KERNEL_PAGETABLE = 0x20000"

definition KMEM_KERNEL_PAGETABLE_SIZE :: "64 word" where "KMEM_KERNEL_PAGETABLE_SIZE = 0x50000"

definition KMEM_KERNEL_PAGETABLE_END :: "64 word" where "KMEM_KERNEL_PAGETABLE_END = 0x70000"

definition get_pdflags :: "int \<Rightarrow> error + 64 word" where
  "get_pdflags memtype =
     (if memtype = PMEMTYPE_ACPI_NVS \<or> memtype = PMEMTYPE_UNCACHED then
        Inr (PF_PRESENT OR PF_GLOBAL OR PF_SYSTEM OR PF_RW OR PF_PS OR PF_PWT OR PF_PCD)
      else if memtype = PMEMTYPE_BAD \<or> memtype = PMEMTYPE_UNMAPPED then Inr 0
      else if memtype = PMEMTYPE_USABLE \<or> memtype = PMEMTYPE_RESERVED \<or> memtype = PMEMTYPE_ACPI then
        Inr (PF_PRESENT OR PF_GLOBAL OR PF_SYSTEM OR PF_RW OR PF_PS)
      else Inl Fatal)"

definition get_ptflags :: "int \<Rightarrow> error + 64 word" where
  "get_ptflags memtype =
     (if memtype = PMEMTYPE_ACPI_NVS \<or> memtype = PMEMTYPE_UNCACHED then
        Inr (PF_PRESENT OR PF_GLOBAL OR PF_SYSTEM OR PF_RW OR PF_PWT OR PF_PCD)
      else if memtype = PMEMTYPE_BAD \<or> memtype = PMEMTYPE_UNMAPPED then Inr 0
      else if memtype = PMEMTYPE_USABLE \<or> memtype = PMEMTYPE_RESERVED \<or> memtype = PMEMTYPE_ACPI then
        Inr (PF_PRESENT OR PF_GLOBAL OR PF_SYSTEM OR PF_RW)
      else Inl Fatal)"

definition alloc_page :: "pagetable \<Rightarrow> error + (64 word \<times> pagetable)" where
  "alloc_page pt =
     (if vnext pt \<ge> vterm pt then Inl Fatal
      else Inr (vnext pt OR PF_SYSTEM OR PF_PRESENT OR PF_RW, pt\<lparr>vnext := vnext pt + PAGE_SIZE\<rparr>))"

text \<open>
  The statement \<open>if (t->entry[i] == 0) t->entry[i] = alloc_page(pt);\<close> occurs at every
  interior level of the three \<open>create_*_page\<close> functions; it returns the memory and the
  handle after it.
\<close>

definition kmem_ensure :: "memory \<times> pagetable \<Rightarrow> 64 word \<Rightarrow> 64 word \<Rightarrow> error + (memory \<times> pagetable)" where
  "kmem_ensure s t i =
     (if fst s (entry t i) = 0
      then ebind (alloc_page (snd s)) (\<lambda>(v, pt'). Inr ((fst s)(entry t i := v), pt'))
      else Inr s)"

definition create_huge_page :: "memory \<times> pagetable \<Rightarrow> 64 word \<Rightarrow> int \<Rightarrow> error + (memory \<times> pagetable)" where
  "create_huge_page s a memtype =
     ebind (kmem_ensure s (proot (snd s)) (PML4E a)) (\<lambda>s1.
       let pdpt = PGPTR (fst s1 (entry (proot (snd s1)) (PML4E a)))
       in ebind (get_pdflags memtype) (\<lambda>fl.
            Inr ((fst s1)(entry pdpt (PDPTE a) := a OR fl), snd s1)))"

definition create_large_page :: "memory \<times> pagetable \<Rightarrow> 64 word \<Rightarrow> int \<Rightarrow> error + (memory \<times> pagetable)" where
  "create_large_page s a memtype =
     ebind (kmem_ensure s (proot (snd s)) (PML4E a)) (\<lambda>s1.
       let pdpt = PGPTR (fst s1 (entry (proot (snd s1)) (PML4E a)))
       in ebind (kmem_ensure s1 pdpt (PDPTE a)) (\<lambda>s2.
            let pdt = PGPTR (fst s2 (entry pdpt (PDPTE a)))
            in ebind (get_pdflags memtype) (\<lambda>fl.
                 Inr ((fst s2)(entry pdt (PDE a) := a OR fl), snd s2))))"

definition create_small_page :: "memory \<times> pagetable \<Rightarrow> 64 word \<Rightarrow> int \<Rightarrow> error + (memory \<times> pagetable)" where
  "create_small_page s a memtype =
     ebind (kmem_ensure s (proot (snd s)) (PML4E a)) (\<lambda>s1.
       let pdpt = PGPTR (fst s1 (entry (proot (snd s1)) (PML4E a)))
       in ebind (kmem_ensure s1 pdpt (PDPTE a)) (\<lambda>s2.
            let pdt = PGPTR (fst s2 (entry pdpt (PDPTE a)))
            in ebind (kmem_ensure s2 pdt (PDE a)) (\<lambda>s3.
                 let ptt = PGPTR (fst s3 (entry pdt (PDE a)))
                 in ebind (get_ptflags memtype) (\<lambda>fl.
                      Inr ((fst s3)(entry ptt (PTE a) := a OR fl), snd s3)))))"

text \<open>
  The \<open>while (addr < term)\<close> loop of \<open>map_region\<close>. A region whose end is not a multiple of
  the page size can step past \<open>term\<close> and wrap, so the loop has no bound of its own: not
  returning is \<open>None\<close>.
\<close>

partial_function (option) map_region_loop ::
  "memory \<times> pagetable \<Rightarrow> int \<Rightarrow> 64 word \<Rightarrow> 64 word \<Rightarrow> (error + (memory \<times> pagetable)) option" where
  "map_region_loop s memtype a term =
     (if a < term then
        let remain = term - a
        in
          if a AND (PAGE_SIZE_HUGE - 1) = 0 \<and> remain \<ge> PAGE_SIZE_HUGE then
            (case create_huge_page s a memtype of
               Inl e \<Rightarrow> Some (Inl e)
             | Inr s' \<Rightarrow> map_region_loop s' memtype (a + PAGE_SIZE_HUGE) term)
          else if a AND (PAGE_SIZE_LARGE - 1) = 0 \<and> remain \<ge> PAGE_SIZE_LARGE then
            (case create_large_page s a memtype of
               Inl e \<Rightarrow> Some (Inl e)
             | Inr s' \<Rightarrow> map_region_loop s' memtype (a + PAGE_SIZE_LARGE) term)
          else
            (case create_small_page s a memtype of
               Inl e \<Rightarrow> Some (Inl e)
             | Inr s' \<Rightarrow> map_region_loop s' memtype (a + PAGE_SIZE) term)
      else Some (Inr s))"

declare map_region_loop.simps [code]

definition map_region :: "memory \<times> pagetable \<Rightarrow> pmap \<Rightarrow> pmapregion \<Rightarrow> (error + (memory \<times> pagetable)) option" where
  "map_region s pm region =
     (if rtype region = PMEMTYPE_UNMAPPED \<or> rtype region = PMEMTYPE_BAD then Some (Inr s)
      else if rtype region = PMEMTYPE_RESERVED \<and> addr region \<ge> last_usable pm then Some (Inr s)
      else map_region_loop s (rtype region) (addr region) (addr region + rsize region))"

fun map_regions :: "memory \<times> pagetable \<Rightarrow> pmap \<Rightarrow> pmapregion list \<Rightarrow> (error + (memory \<times> pagetable)) option" where
  "map_regions s pm [] = Some (Inr s)"
| "map_regions s pm (r # rs) =
     (case map_region s pm r of
        None \<Rightarrow> None
      | Some (Inl e) \<Rightarrow> Some (Inl e)
      | Some (Inr s') \<Rightarrow> map_regions s' pm rs)"

definition kmem_init :: "memory \<Rightarrow> pmap \<Rightarrow> (error + (memory \<times> pagetable)) option" where
  "kmem_init m pm =
     map_regions
       (memzero m KMEM_KERNEL_PAGETABLE KMEM_KERNEL_PAGETABLE_SIZE,
        \<lparr>proot = KMEM_KERNEL_PAGETABLE, vroot = KMEM_KERNEL_PAGETABLE,
         vnext = KMEM_KERNEL_PAGETABLE + PAGE_SIZE, vterm = KMEM_KERNEL_PAGETABLE_END\<rparr>)
       pm (regions pm)"

section \<open>Page-frame database and paging API (paging.c)\<close>

definition CONTAINS_TABLE :: "32 word" where "CONTAINS_TABLE = 1"

definition PFN_INVALID :: "32 word" where "PFN_INVALID = 0xFFFFFFFF"

definition PFTYPE_RESERVED :: "8 word" where "PFTYPE_RESERVED = 0"

definition PFTYPE_AVAILABLE :: "8 word" where "PFTYPE_AVAILABLE = 1"

definition PFTYPE_ALLOCATED :: "8 word" where "PFTYPE_ALLOCATED = 2"

text \<open>
  A \<open>pf_t\<close> record, without its three reserved fields, which no code reads. The database
  array \<open>pfdb.pf\<close> is kept apart from the memory cells: \<open>pfs\<close> maps an index to its record
  and \<open>npf\<close> is the number of records the array holds (\<open>pfdbsize / 32\<close>). An access with an
  index of \<open>npf\<close> or more is outside the array: \<open>Out_of_bounds\<close>.
\<close>

record pf =
  pf_prev :: "32 word"
  pf_next :: "32 word"
  refcount :: "16 word"
  sharecount :: "16 word"
  pf_flags :: "16 word"
  pf_type :: "8 word"

definition pf_zero :: pf where
  "pf_zero = \<lparr>pf_prev = 0, pf_next = 0, refcount = 0, sharecount = 0, pf_flags = 0, pf_type = 0\<rparr>"

record pfdb =
  pfs :: "nat \<Rightarrow> pf"
  npf :: nat
  pfcount :: "32 word"
  avail :: "32 word"
  head :: "32 word"
  tail :: "32 word"

text \<open>The state of the paging module: the memory cells, the database and the kernel table.\<close>

record pstate =
  mem :: memory
  db :: pfdb

definition PADDR_TO_PF :: "64 word \<Rightarrow> nat" where "PADDR_TO_PF a = unat (drop_bit 12 a)"

definition PF_TO_PADDR :: "nat \<Rightarrow> 64 word" where "PF_TO_PADDR i = push_bit 12 (word_of_nat i)"

definition PF_TO_PFN :: "nat \<Rightarrow> 32 word" where "PF_TO_PFN i = word_of_nat i"

text \<open>
  \<open>reserve_region\<close>: the first Usable region that holds \<open>size\<close> bytes from an aligned address
  on is handed to \<open>pmap_add\<close> as Reserved. The result is the address (0 for \<open>NULL\<close>) and the map.
\<close>

fun reserve_scan :: "pmap \<Rightarrow> 64 word \<Rightarrow> nat \<Rightarrow> pmapregion list \<Rightarrow> (64 word \<times> pmap) option" where
  "reserve_scan pm sz alignshift [] = Some (0, pm)"
| "reserve_scan pm sz alignshift (r # rs) =
     (if rtype r \<noteq> PMEMTYPE_USABLE then reserve_scan pm sz alignshift rs
      else if rsize r < sz then reserve_scan pm sz alignshift rs
      else
        let paddr = push_bit alignshift (drop_bit alignshift (addr r + push_bit alignshift 1 - 1))
        in if paddr + sz > addr r + rsize r then reserve_scan pm sz alignshift rs
           else (case pmap_add True paddr sz PMEMTYPE_RESERVED pm of
                   None \<Rightarrow> None
                 | Some pm' \<Rightarrow> Some (paddr, pm')))"

definition reserve_region :: "pmap \<Rightarrow> 64 word \<Rightarrow> nat \<Rightarrow> (64 word \<times> pmap) option" where
  "reserve_region pm sz alignshift = reserve_scan pm sz alignshift (regions pm)"

text \<open>The inner loop of \<open>page_init\<close>: frames \<open>pfn\<close> up to \<open>pfnN\<close> are chained to their neighbours.\<close>

function link_frames :: "(nat \<Rightarrow> pf) \<Rightarrow> nat \<Rightarrow> 64 word \<Rightarrow> 64 word \<Rightarrow> error + (nat \<Rightarrow> pf)" where
  "link_frames f n pfn pfnN =
     (if pfn < pfnN then
        (if unat pfn < n then
           link_frames
             (f(unat pfn := (f (unat pfn))\<lparr>pf_prev := ucast (pfn - 1), pf_next := ucast (pfn + 1),
                                         pf_type := PFTYPE_AVAILABLE\<rparr>))
             n (pfn + 1) pfnN
         else Inl Out_of_bounds)
      else Inr f)"
  by pat_completeness auto

termination
proof (relation "measure (\<lambda>(f, n, pfn, pfnN). unat pfnN - unat pfn)")
  show "wf (measure (\<lambda>(f, n, pfn, pfnN). unat pfnN - unat pfn))" by simp
next
  fix f :: "nat \<Rightarrow> pf" and n :: nat and pfn pfnN :: "64 word"
  assume "pfn < pfnN"
  then have "unat pfn < unat pfnN" by (simp add: word_less_nat_alt)
  moreover have "unat pfnN < 2 ^ 64" using unsigned_less [of pfnN] by simp
  ultimately have "unat (pfn + 1) = unat pfn + 1" by (simp add: unat_word_ariths)
  then show "((f(unat pfn := (f (unat pfn))\<lparr>pf_prev := ucast (pfn - 1), pf_next := ucast (pfn + 1),
                                          pf_type := PFTYPE_AVAILABLE\<rparr>), n, pfn + 1, pfnN),
              f, n, pfn, pfnN) \<in> measure (\<lambda>(f, n, pfn, pfnN). unat pfnN - unat pfn)"
    using \<open>unat pfn < unat pfnN\<close> by simp
qed

declare link_frames.simps [simp del]

text \<open>The body of the region loop of \<open>page_init\<close> for one region of the map.\<close>

definition add_frames :: "pfdb \<Rightarrow> pmapregion \<Rightarrow> error + pfdb" where
  "add_frames d region =
     (if rtype region \<noteq> PMEMTYPE_USABLE then Inr d
      else
        let pfn0 = drop_bit 12 (addr region);
            pfnN = drop_bit 12 (addr region + rsize region)
        in ebind (link_frames (pfs d) (npf d) pfn0 pfnN) (\<lambda>f1.
             if tail d \<noteq> PFN_INVALID \<and> \<not> unat (tail d) < npf d then Inl Out_of_bounds
             else if \<not> unat pfn0 < npf d \<or> \<not> unat (pfnN - 1) < npf d then Inl Out_of_bounds
             else
               let f2 = (if tail d = PFN_INVALID then f1
                         else f1(unat (tail d) := (f1 (unat (tail d)))\<lparr>pf_next := ucast pfn0\<rparr>));
                   f3 = f2(unat pfn0 := (f2 (unat pfn0))\<lparr>pf_prev := tail d\<rparr>);
                   f4 = f3(unat (pfnN - 1) := (f3 (unat (pfnN - 1)))\<lparr>pf_next := PFN_INVALID\<rparr>)
               in Inr (d\<lparr>pfs := f4,
                          head := (if tail d = PFN_INVALID then ucast pfn0 else head d),
                          tail := ucast (pfnN - 1),
                          avail := avail d + ucast (pfnN - pfn0)\<rparr>)))"

fun add_all_frames :: "pfdb \<Rightarrow> pmapregion list \<Rightarrow> error + pfdb" where
  "add_all_frames d [] = Inr d"
| "add_all_frames d (r # rs) = ebind (add_frames d r) (\<lambda>d'. add_all_frames d' rs)"

text \<open>
  \<open>page_init\<close>: the result is the memory after \<open>kmem_init\<close> and the clearing of the database
  area, the database, the kernel page table handle \<open>kpt\<close> and the map after \<open>reserve_region\<close>.
\<close>

definition page_init :: "memory \<Rightarrow> pmap \<Rightarrow> (error + (pstate \<times> pagetable \<times> pmap)) option" where
  "page_init m pm =
     (if last_usable pm = 0 then Some (Inl Fatal)
      else
        let cnt = (ucast (last_usable pm div PAGE_SIZE) :: 32 word);
            pfdbsize = push_bit 21 (drop_bit 21 ((ucast cnt :: 64 word) * 32 + PAGE_SIZE_LARGE - 1))
        in case reserve_region pm pfdbsize 21 of
             None \<Rightarrow> None
           | Some (p, pm') \<Rightarrow>
               if p = 0 then Some (Inl Fatal)
               else (case kmem_init m pm' of
                       None \<Rightarrow> None
                     | Some (Inl e) \<Rightarrow> Some (Inl e)
                     | Some (Inr (m1, kpt)) \<Rightarrow>
                         (case add_all_frames
                                 \<lparr>pfs = (\<lambda>i. pf_zero), npf = unat pfdbsize div 32, pfcount = cnt,
                                  avail = 0, head = PFN_INVALID, tail = PFN_INVALID\<rparr>
                                 (regions pm') of
                            Inl e \<Rightarrow> Some (Inl e)
                          | Inr d \<Rightarrow> Some (Inr (\<lparr>mem = memzero m1 p pfdbsize, db = d\<rparr>, kpt, pm')))))"

definition pfalloc :: "pfdb \<Rightarrow> error + (nat \<times> pfdb)" where
  "pfalloc d =
     (if avail d = 0 then Inl Fatal
      else
        let h = unat (head d)
        in if \<not> h < npf d then Inl Out_of_bounds
           else
             let nh = pf_next (pfs d h)
             in if nh \<noteq> PFN_INVALID \<and> \<not> unat nh < npf d then Inl Out_of_bounds
                else
                  let f1 = (if nh \<noteq> PFN_INVALID
                            then (pfs d)(unat nh := (pfs d (unat nh))\<lparr>pf_prev := PFN_INVALID\<rparr>)
                            else pfs d);
                      f2 = f1(h := pf_zero\<lparr>refcount := 1, pf_type := PFTYPE_ALLOCATED\<rparr>)
                  in Inr (h, d\<lparr>pfs := f2, head := nh\<rparr>))"

definition pffree :: "pfdb \<Rightarrow> nat \<Rightarrow> error + pfdb" where
  "pffree d i =
     (if \<not> i < npf d then Inl Out_of_bounds
      else if pf_type (pfs d i) \<noteq> PFTYPE_ALLOCATED then Inl Fatal
      else
        let f1 = (pfs d)(i := pf_zero\<lparr>pf_prev := PFN_INVALID, pf_next := head d,
                                     pf_type := PFTYPE_AVAILABLE\<rparr>);
            pfn = PF_TO_PFN i
        in if \<not> unat (head d) < npf d then Inl Out_of_bounds
           else Inr (d\<lparr>pfs := f1(unat (head d) := (f1 (unat (head d)))\<lparr>pf_prev := pfn\<rparr>),
                      head := pfn, avail := avail d + 1\<rparr>))"

definition pgalloc :: "pstate \<Rightarrow> error + (64 word \<times> pstate)" where
  "pgalloc s =
     ebind (pfalloc (db s)) (\<lambda>(i, d').
       let paddr = PF_TO_PADDR i
       in Inr (paddr, \<lparr>mem = memzero (mem s) paddr PAGE_SIZE, db = d'\<rparr>))"

definition pgfree :: "pfdb \<Rightarrow> 64 word \<Rightarrow> error + pfdb" where
  "pgfree d paddr =
     (let i = PADDR_TO_PF paddr
      in if \<not> i < npf d then Inl Out_of_bounds
         else
           let rc = refcount (pfs d i) - 1;
               d1 = d\<lparr>pfs := (pfs d)(i := (pfs d i)\<lparr>refcount := rc\<rparr>)\<rparr>
           in if rc = 0 then pffree d1 i else Inr d1)"

text \<open>
  The free list as the claims read it: the frames met from \<open>head\<close> along \<open>next\<close>, and from
  \<open>tail\<close> along \<open>prev\<close>, up to the first index that is \<open>PFN_INVALID\<close> or outside the array.
  The walk stops after as many steps as the array has records.
\<close>

fun walk_next :: "nat \<Rightarrow> (nat \<Rightarrow> pf) \<Rightarrow> nat \<Rightarrow> 32 word \<Rightarrow> nat list" where
  "walk_next k f n i =
     (if k = 0 \<or> i = PFN_INVALID \<or> \<not> unat i < n then []
      else unat i # walk_next (k - 1) f n (pf_next (f (unat i))))"

fun walk_prev :: "nat \<Rightarrow> (nat \<Rightarrow> pf) \<Rightarrow> nat \<Rightarrow> 32 word \<Rightarrow> nat list" where
  "walk_prev k f n i =
     (if k = 0 \<or> i = PFN_INVALID \<or> \<not> unat i < n then []
      else unat i # walk_prev (k - 1) f n (pf_prev (f (unat i))))"

declare walk_next.simps [simp del]

declare walk_prev.simps [simp del]

definition free_from_head :: "pfdb \<Rightarrow> nat list" where
  "free_from_head d = walk_next (npf d) (pfs d) (npf d) (head d)"

definition free_from_tail :: "pfdb \<Rightarrow> nat list" where
  "free_from_tail d = walk_prev (npf d) (pfs d) (npf d) (tail d)"

text \<open>
  \<open>pgfree_recurse(page, level)\<close>. Freeing changes the database only, so the walk reads one
  memory throughout. \<open>pgfree_walk\<close> is the \<open>for\<close> loop over the entries \<open>e\<close> to 511 of one
  page; at a level above 1 it descends into each child that is neither flagged
  \<open>PF_SYSTEM\<close> nor null. The kernel calls it with level 4 only; a level below 1 never
  reaches the leaf case and is outside the model.
\<close>

function pgfree_walk :: "memory \<Rightarrow> nat \<Rightarrow> 64 word \<Rightarrow> nat \<Rightarrow> pfdb \<Rightarrow> error + pfdb" where
  "pgfree_walk m level page e d =
     (if level = 0 then Inl Out_of_bounds
      else if \<not> e < 512 then Inr d
      else if level = 1 then
        (let paddr = PGPTR (m (entry page (word_of_nat e)))
         in if paddr = 0 then pgfree_walk m level page (e + 1) d
            else if \<not> PADDR_TO_PF paddr < npf d then Inl Out_of_bounds
            else if pf_type (pfs d (PADDR_TO_PF paddr)) = PFTYPE_ALLOCATED then
              (case pgfree d paddr of
                 Inl err \<Rightarrow> Inl err
               | Inr d' \<Rightarrow> pgfree_walk m level page (e + 1) d')
            else pgfree_walk m level page (e + 1) d)
      else
        (if m (entry page (word_of_nat e)) AND PF_SYSTEM \<noteq> 0
         then pgfree_walk m level page (e + 1) d
         else
           let child = PGPTR (m (entry page (word_of_nat e)))
           in if child = 0 then pgfree_walk m level page (e + 1) d
              else (case pgfree_walk m (level - 1) child 0 d of
                      Inl err \<Rightarrow> Inl err
                    | Inr d' \<Rightarrow> pgfree_walk m level page (e + 1) d')))"
  by pat_completeness auto

termination
  by (relation "measures [\<lambda>(m, level, page, e, d). level, \<lambda>(m, level, page, e, d). 512 - e]") auto

declare pgfree_walk.simps [simp del]

definition pgfree_recurse :: "memory \<Rightarrow> 64 word \<Rightarrow> nat \<Rightarrow> pfdb \<Rightarrow> error + pfdb" where
  "pgfree_recurse m page level d = pgfree_walk m level page 0 d"

text \<open>
  The traversal of \<open>add_pte\<close> down to the write of the leaf: the result is the state after
  it and the interior pages it allocated, in order (the array \<open>added\<close>).
\<close>

definition add_pte_level ::
  "bool \<Rightarrow> pstate \<times> 64 word list \<Rightarrow> 64 word \<Rightarrow> 64 word \<Rightarrow> error + (pstate \<times> 64 word list)" where
  "add_pte_level check_system sa t i =
     (if mem (fst sa) (entry t i) = 0 then
        ebind (pgalloc (fst sa)) (\<lambda>(pgaddr, s').
          Inr (s'\<lparr>mem := (mem s')(entry t i := pgaddr OR PF_PRESENT OR PF_RW)\<rparr>,
               snd sa @ [pgaddr]))
      else if check_system \<and> mem (fst sa) (entry t i) AND PF_SYSTEM \<noteq> 0 then Inl Fatal
      else Inr sa)"

definition add_pte_walk ::
  "pstate \<Rightarrow> pagetable \<Rightarrow> 64 word \<Rightarrow> 64 word \<Rightarrow> 32 word \<Rightarrow> error + (pstate \<times> 64 word list)" where
  "add_pte_walk s pt vaddr paddr pflags =
     ebind (add_pte_level True (s, []) (proot pt) (PML4E vaddr)) (\<lambda>sa1.
       let pdpt = PGPTR (mem (fst sa1) (entry (proot pt) (PML4E vaddr)))
       in ebind (add_pte_level False sa1 pdpt (PDPTE vaddr)) (\<lambda>sa2.
            let pdt = PGPTR (mem (fst sa2) (entry pdpt (PDPTE vaddr)))
            in ebind (add_pte_level False sa2 pdt (PDE vaddr)) (\<lambda>sa3.
                 let ptt = PGPTR (mem (fst sa3) (entry pdt (PDE vaddr)))
                 in Inr ((fst sa3)\<lparr>mem := (mem (fst sa3))(entry ptt (PTE vaddr) := paddr OR ucast pflags)\<rparr>,
                         snd sa3))))"

text \<open>
  \<open>add_pte\<close> calls itself for every page in \<open>added\<close>. \<open>Pte\<close> is one call of \<open>add_pte\<close>;
  \<open>Added\<close> is the rest of its closing \<open>for\<close> loop, which maps each added page at
  \<open>pt->vnext\<close> and then advances \<open>pt->vnext\<close>. The recursion has no bound of its own, so not
  returning is \<open>None\<close>.
\<close>

datatype pte_task = Pte "64 word" "64 word" "32 word" "32 word" | Added "64 word list"

partial_function (option) add_pte_run ::
  "pstate \<Rightarrow> pagetable \<Rightarrow> pte_task \<Rightarrow> (error + (pstate \<times> pagetable)) option" where
  "add_pte_run s pt task =
     (case task of
        Pte vaddr paddr pflags addflags \<Rightarrow>
          if addflags AND CONTAINS_TABLE \<noteq> 0 \<and> vaddr \<ge> vterm pt then Some (Inl Fatal)
          else (case add_pte_walk s pt vaddr paddr pflags of
                  Inl e \<Rightarrow> Some (Inl e)
                | Inr (s', added) \<Rightarrow> add_pte_run s' pt (Added added))
      | Added [] \<Rightarrow> Some (Inr (s, pt))
      | Added (a # as) \<Rightarrow>
          Option.bind
            (add_pte_run s pt (Pte (vnext pt) a (ucast (PF_PRESENT OR PF_RW)) CONTAINS_TABLE))
            (\<lambda>r. case r of
                   Inl e \<Rightarrow> Some (Inl e)
                 | Inr (s', pt') \<Rightarrow>
                     add_pte_run s' (pt'\<lparr>vnext := vnext pt' + PAGE_SIZE\<rparr>) (Added as)))"

declare add_pte_run.simps [code]

definition add_pte ::
  "pstate \<Rightarrow> pagetable \<Rightarrow> 64 word \<Rightarrow> 64 word \<Rightarrow> 32 word \<Rightarrow> 32 word
     \<Rightarrow> (error + (pstate \<times> pagetable)) option" where
  "add_pte s pt vaddr paddr pflags addflags = add_pte_run s pt (Pte vaddr paddr pflags addflags)"

text \<open>\<open>remove_pte\<close> returns the address held by the leaf and clears the leaf.\<close>

definition remove_pte :: "pstate \<Rightarrow> pagetable \<Rightarrow> 64 word \<Rightarrow> 64 word \<times> pstate" where
  "remove_pte s pt vaddr =
     (let pdpt = PGPTR (mem s (entry (proot pt) (PML4E vaddr)));
          pdt = PGPTR (mem s (entry pdpt (PDPTE vaddr)));
          ptt = PGPTR (mem s (entry pdt (PDE vaddr)));
          pg = PGPTR (mem s (entry ptt (PTE vaddr)))
      in (pg, s\<lparr>mem := (mem s)(entry ptt (PTE vaddr) := 0)\<rparr>))"

text \<open>
  \<open>pagetable_create\<close> copies the 512 entries of the kernel root \<open>kpt.proot\<close> in index order.
\<close>

definition copy_entries :: "memory \<Rightarrow> 64 word \<Rightarrow> 64 word \<Rightarrow> memory" where
  "copy_entries m src dst =
     fold (\<lambda>i m'. m'(entry dst (word_of_nat i) := m' (entry src (word_of_nat i)))) [0..<512] m"

definition pagetable_create ::
  "pstate \<Rightarrow> pagetable \<Rightarrow> 64 word \<Rightarrow> 64 word \<Rightarrow> error + (pstate \<times> pagetable)" where
  "pagetable_create s kpt vaddr sz =
     (if sz mod PAGE_SIZE \<noteq> 0 then Inl Fatal
      else ebind (pgalloc s) (\<lambda>(root, s').
             Inr (s'\<lparr>mem := copy_entries (mem s') (proot kpt) root\<rparr>,
                  \<lparr>proot = root, vroot = vaddr, vnext = vaddr + PAGE_SIZE, vterm = vaddr + sz\<rparr>)))"

definition pagetable_destroy :: "pstate \<Rightarrow> pagetable \<Rightarrow> error + (pstate \<times> pagetable)" where
  "pagetable_destroy s pt =
     (if proot pt = 0 then Inl Fatal
      else ebind (pgfree_recurse (mem s) (proot pt) 4 (db s)) (\<lambda>d'.
             Inr (s\<lparr>db := d'\<rparr>, \<lparr>proot = 0, vroot = 0, vnext = 0, vterm = 0\<rparr>)))"

text \<open>
  \<open>page_alloc\<close> and \<open>page_free\<close> run their body \<open>count\<close> times. The counter is a C \<open>int\<close>
  tested by \<open>count--\<close>; a negative count runs into signed overflow, which C leaves
  undefined, and is \<open>Out_of_bounds\<close> here.
\<close>

fun page_alloc_loop ::
  "pstate \<Rightarrow> pagetable \<Rightarrow> 64 word \<Rightarrow> nat \<Rightarrow> (error + (pstate \<times> pagetable)) option" where
  "page_alloc_loop s pt vaddr 0 = Some (Inr (s, pt))"
| "page_alloc_loop s pt vaddr (Suc n) =
     (case pgalloc s of
        Inl e \<Rightarrow> Some (Inl e)
      | Inr (paddr, s1) \<Rightarrow>
          (case add_pte s1 pt vaddr paddr (ucast (PF_PRESENT OR PF_RW)) 0 of
             None \<Rightarrow> None
           | Some (Inl e) \<Rightarrow> Some (Inl e)
           | Some (Inr (s2, pt2)) \<Rightarrow> page_alloc_loop s2 pt2 (vaddr + PAGE_SIZE) n))"

definition page_alloc ::
  "pstate \<Rightarrow> pagetable \<Rightarrow> 64 word \<Rightarrow> int \<Rightarrow> (error + (pstate \<times> pagetable)) option" where
  "page_alloc s pt vaddr_in n =
     (if n < 0 then Some (Inl Out_of_bounds) else page_alloc_loop s pt vaddr_in (nat n))"

fun page_free_loop :: "pstate \<Rightarrow> pagetable \<Rightarrow> 64 word \<Rightarrow> nat \<Rightarrow> error + pstate" where
  "page_free_loop s pt vaddr 0 = Inr s"
| "page_free_loop s pt vaddr (Suc n) =
     (let (paddr, s1) = remove_pte s pt vaddr
      in case pgfree (db s1) paddr of
           Inl e \<Rightarrow> Inl e
         | Inr d' \<Rightarrow> page_free_loop (s1\<lparr>db := d'\<rparr>) pt (vaddr + PAGE_SIZE) n)"

definition page_free :: "pstate \<Rightarrow> pagetable \<Rightarrow> 64 word \<Rightarrow> int \<Rightarrow> error + pstate" where
  "page_free s pt vaddr_in n =
     (if n < 0 then Inl Out_of_bounds else page_free_loop s pt vaddr_in (nat n))"

text \<open>The number of frames of type Allocated among the records of the database.\<close>

definition allocated_frames :: "pfdb \<Rightarrow> nat" where
  "allocated_frames d = length (filter (\<lambda>i. pf_type (pfs d i) = PFTYPE_ALLOCATED) [0..<npf d])"

subsection \<open>Notions for the SYSTEM flag along a walk\<close>


text \<open>
  Along the walk for \<open>v\<close>, an entry of the PDPT or the PDT level that carries SYSTEM lies
  beneath a PML4 entry that carries it: beneath a PML4 entry without SYSTEM there is none.
\<close>

definition system_inherited :: "memory \<Rightarrow> 64 word \<Rightarrow> 64 word \<Rightarrow> bool" where
  "system_inherited m root v =
     (let e4 = m (entry root (PML4E v));
          e3 = m (entry (PGPTR e4) (PDPTE v));
          e2 = m (entry (PGPTR e3) (PDE v))
      in e4 = 0 \<or> e4 AND PF_SYSTEM \<noteq> 0 \<or>
         (e3 AND PF_SYSTEM = 0 \<and> (e3 = 0 \<or> e2 AND PF_SYSTEM = 0)))"

text \<open>An entry is 0 or carries SYSTEM; all 512 entries of the table at \<open>root\<close> are such.\<close>

definition zero_or_system :: "64 word \<Rightarrow> bool" where
  "zero_or_system e = (e = 0 \<or> e AND PF_SYSTEM \<noteq> 0)"

definition system_table :: "memory \<Rightarrow> 64 word \<Rightarrow> bool" where
  "system_table m root = list_all (\<lambda>i. zero_or_system (m (entry root (word_of_nat i)))) [0..<512]"

text \<open>Every cell of the area \<open>kmem_init\<close> clears for the kernel's tables is 0 or carries SYSTEM.\<close>

definition system_area :: "memory \<Rightarrow> bool" where
  "system_area m =
     (\<forall>c. c - KMEM_KERNEL_PAGETABLE < KMEM_KERNEL_PAGETABLE_SIZE \<longrightarrow> zero_or_system (m c))"

text \<open>From memory \<open>m\<close> to memory \<open>m'\<close> no cell has come to carry SYSTEM.\<close>

definition no_system_added :: "memory \<Rightarrow> memory \<Rightarrow> bool" where
  "no_system_added m m' = (\<forall>c. m' c AND PF_SYSTEM \<noteq> 0 \<longrightarrow> m' c = m c)"

text \<open>The values a task of \<open>add_pte_run\<close> is given to write carry no SYSTEM.\<close>

fun task_clean :: "pte_task \<Rightarrow> bool" where
  "task_clean (Pte vaddr paddr pflags addflags) = ((paddr OR ucast pflags) AND PF_SYSTEM = 0)"
| "task_clean (Added as) = list_all (\<lambda>a. a AND PF_SYSTEM = 0) as"

section \<open>ACPI table walker (acpi.c)\<close>

text \<open>
  The ACPI structures are packed, so their fields are read byte by byte, little-endian,
  out of the memory cells: byte \<open>a\<close> lies in the cell at \<open>a AND NOT 7\<close>.
\<close>

definition read8 :: "memory \<Rightarrow> 64 word \<Rightarrow> 8 word" where
  "read8 m a = ucast (drop_bit (8 * unat (a AND 7)) (m (a AND NOT 7)))"

fun read_le :: "memory \<Rightarrow> 64 word \<Rightarrow> nat \<Rightarrow> 64 word" where
  "read_le m a 0 = 0"
| "read_le m a (Suc n) = ucast (read8 m a) OR push_bit 8 (read_le m (a + 1) n)"

definition read32 :: "memory \<Rightarrow> 64 word \<Rightarrow> 32 word" where
  "read32 m a = ucast (read_le m a (Suc (Suc (Suc (Suc 0)))))"

definition read64 :: "memory \<Rightarrow> 64 word \<Rightarrow> 64 word" where
  "read64 m a = read_le m a (Suc (Suc (Suc (Suc (Suc (Suc (Suc (Suc 0))))))))"

definition SIGNATURE_RSDP :: "64 word" where "SIGNATURE_RSDP = 0x2052545020445352"

definition SIGNATURE_MADT :: "32 word" where "SIGNATURE_MADT = 0x43495041"

definition SIGNATURE_FADT :: "32 word" where "SIGNATURE_FADT = 0x50434146"

definition SIGNATURE_MCFG :: "32 word" where "SIGNATURE_MCFG = 0x4746434D"

definition ACPI_MADT_LOCAL_APIC :: "8 word" where "ACPI_MADT_LOCAL_APIC = 0"

definition ACPI_MADT_IO_APIC :: "8 word" where "ACPI_MADT_IO_APIC = 1"

definition ACPI_MADT_ISO :: "8 word" where "ACPI_MADT_ISO = 2"

text \<open>
  Modelled from the spec: \<open>kmem.h\<close> is not part of the sources at hand. The comments of
  \<open>acpi_init\<close> give the boot page table as \<open>0x10000\<close>, its loaded part as ending at \<open>0x14000\<close>,
  its end as \<open>0x20000\<close>, and the two scan ranges as \<open>0x9f800 + 0x800\<close> and \<open>0xc0000 + 0x40000\<close>.
\<close>

definition KMEM_BOOT_PAGETABLE :: "64 word" where "KMEM_BOOT_PAGETABLE = 0x10000"

definition KMEM_BOOT_PAGETABLE_LOADED :: "64 word" where "KMEM_BOOT_PAGETABLE_LOADED = 0x14000"

definition KMEM_BOOT_PAGETABLE_END :: "64 word" where "KMEM_BOOT_PAGETABLE_END = 0x20000"

definition KMEM_EXTENDED_BIOS :: "64 word" where "KMEM_EXTENDED_BIOS = 0x9f800"

definition KMEM_EXTENDED_BIOS_SIZE :: "64 word" where "KMEM_EXTENDED_BIOS_SIZE = 0x800"

definition KMEM_SYSTEM_ROM :: "64 word" where "KMEM_SYSTEM_ROM = 0xc0000"

definition KMEM_SYSTEM_ROM_SIZE :: "64 word" where "KMEM_SYSTEM_ROM_SIZE = 0x40000"

definition PAGE_ALIGN_DOWN :: "64 word \<Rightarrow> 64 word" where
  "PAGE_ALIGN_DOWN a = a AND NOT (PAGE_SIZE - 1)"

definition PAGE_ALIGN_UP :: "64 word \<Rightarrow> 64 word" where
  "PAGE_ALIGN_UP a = (a + PAGE_SIZE - 1) AND NOT (PAGE_SIZE - 1)"

record btable =
  root :: "64 word"
  next_page :: "64 word"
  term_page :: "64 word"

text \<open>The pointers of \<open>struct acpi\<close>; 0 is \<open>NULL\<close>.\<close>

record acpi =
  version :: int
  rsdp :: "64 word"
  rsdt :: "64 word"
  xsdt :: "64 word"
  fadt :: "64 word"
  madt :: "64 word"
  mcfg :: "64 word"

text \<open>
  The three places where \<open>acpi.c\<close> calls \<open>fatal\<close>: no RSDP, no RSDT, and \<open>alloc_page\<close> with
  the pool of the boot page table used up.
\<close>

datatype acpi_fatal = No_RSDP | No_RSDT | Pool_exhausted

text \<open>The state \<open>acpi_init\<close> works on: memory, the boot table handle, the memory map, \<open>acpi\<close>.\<close>

record acpi_state =
  amem :: memory
  bt :: btable
  apm :: pmap
  tabs :: acpi

definition read_table :: "memory \<Rightarrow> acpi \<Rightarrow> 64 word \<Rightarrow> acpi" where
  "read_table m a hdr =
     (let sig = read32 m hdr
      in if sig = SIGNATURE_FADT then a\<lparr>fadt := hdr\<rparr>
         else if sig = SIGNATURE_MADT then a\<lparr>madt := hdr\<rparr>
         else if sig = SIGNATURE_MCFG then a\<lparr>mcfg := hdr\<rparr>
         else a)"

definition is_mapped :: "memory \<Rightarrow> btable \<Rightarrow> 64 word \<Rightarrow> bool" where
  "is_mapped m b a =
     (if m (entry (root b) (PML4E a)) = 0 then False
      else
        let pdpt = PGPTR (m (entry (root b) (PML4E a)))
        in if m (entry pdpt (PDPTE a)) = 0 then False
           else if m (entry pdpt (PDPTE a)) AND PF_PS \<noteq> 0 then True
           else
             let pdt = PGPTR (m (entry pdpt (PDPTE a)))
             in if m (entry pdt (PDE a)) = 0 then False
                else if m (entry pdt (PDE a)) AND PF_PS \<noteq> 0 then True
                else m (entry (PGPTR (m (entry pdt (PDE a)))) (PTE a)) \<noteq> 0)"

definition alloc_page_acpi :: "memory \<times> btable \<Rightarrow> acpi_fatal + (64 word \<times> memory \<times> btable)" where
  "alloc_page_acpi s =
     (if next_page (snd s) = term_page (snd s) then Inl Pool_exhausted
      else Inr (next_page (snd s) OR PF_PRESENT OR PF_RW,
                memzero (fst s) (next_page (snd s)) PAGE_SIZE,
                (snd s)\<lparr>next_page := next_page (snd s) + PAGE_SIZE\<rparr>))"

text \<open>
  The statement \<open>if (t->entry[i] == 0) t->entry[i] = alloc_page(btable);\<close> of \<open>create_page\<close>.
\<close>

definition acpi_ensure :: "memory \<times> btable \<Rightarrow> 64 word \<Rightarrow> 64 word \<Rightarrow> acpi_fatal + (memory \<times> btable)" where
  "acpi_ensure s t i =
     (if fst s (entry t i) = 0 then
        (case alloc_page_acpi s of
           Inl e \<Rightarrow> Inl e
         | Inr (v, m', b') \<Rightarrow> Inr (m'(entry t i := v), b'))
      else Inr s)"

definition create_page :: "memory \<times> btable \<Rightarrow> 64 word \<Rightarrow> 64 word \<Rightarrow> acpi_fatal + (memory \<times> btable)" where
  "create_page s a flags =
     (case acpi_ensure s (root (snd s)) (PML4E a) of
        Inl e \<Rightarrow> Inl e
      | Inr s1 \<Rightarrow>
          let pdpt = PGPTR (fst s1 (entry (root (snd s1)) (PML4E a)))
          in case acpi_ensure s1 pdpt (PDPTE a) of
               Inl e \<Rightarrow> Inl e
             | Inr s2 \<Rightarrow>
                 let pdt = PGPTR (fst s2 (entry pdpt (PDPTE a)))
                 in case acpi_ensure s2 pdt (PDE a) of
                      Inl e \<Rightarrow> Inl e
                    | Inr s3 \<Rightarrow>
                        let ptt = PGPTR (fst s3 (entry pdt (PDE a)))
                        in Inr ((fst s3)(entry ptt (PTE a) := a OR flags), snd s3))"

text \<open>
  The \<open>for\<close> loop of \<open>map_range\<close> from \<open>a\<close> to \<open>term\<close> in steps of a page.
\<close>

partial_function (option) map_range_loop ::
  "memory \<times> btable \<Rightarrow> 64 word \<Rightarrow> 64 word \<Rightarrow> 64 word \<Rightarrow> (acpi_fatal + (memory \<times> btable)) option" where
  "map_range_loop s a term flags =
     (if a < term then
        (if \<not> is_mapped (fst s) (snd s) a then
           (case create_page s a flags of
              Inl e \<Rightarrow> Some (Inl e)
            | Inr s' \<Rightarrow> map_range_loop s' (a + PAGE_SIZE) term flags)
         else map_range_loop s (a + PAGE_SIZE) term flags)
      else Some (Inr s))"

declare map_range_loop.simps [code]

definition map_range ::
  "memory \<times> btable \<Rightarrow> 64 word \<Rightarrow> 64 word \<Rightarrow> 64 word \<Rightarrow> (acpi_fatal + (memory \<times> btable)) option" where
  "map_range s a sz flags = map_range_loop s (PAGE_ALIGN_DOWN a) (PAGE_ALIGN_UP (a + sz)) flags"

text \<open>\<open>map_table\<close>; \<open>sizeof(struct acpi_hdr)\<close> is 36 and \<open>hdr->length\<close> is at offset 4.\<close>

definition map_table :: "acpi_state \<Rightarrow> 64 word \<Rightarrow> (acpi_fatal + acpi_state) option" where
  "map_table s hdr =
     (case map_range (amem s, bt s) hdr 36 (PF_PRESENT OR PF_RW) of
        None \<Rightarrow> None
      | Some (Inl e) \<Rightarrow> Some (Inl e)
      | Some (Inr s1) \<Rightarrow>
          (case map_range s1 hdr (ucast (read32 (fst s1) (hdr + 4))) (PF_PRESENT OR PF_RW) of
             None \<Rightarrow> None
           | Some (Inl e) \<Rightarrow> Some (Inl e)
           | Some (Inr s2) \<Rightarrow>
               (case pmap_add False (PAGE_ALIGN_DOWN hdr)
                       (PAGE_ALIGN_UP (hdr + ucast (read32 (fst s2) (hdr + 4))) - PAGE_ALIGN_DOWN hdr)
                       PMEMTYPE_ACPI (apm s) of
                  None \<Rightarrow> None
                | Some pm' \<Rightarrow> Some (Inr (s\<lparr>amem := fst s2, bt := snd s2, apm := pm'\<rparr>)))))"

text \<open>
  The loops of \<open>read_xsdt\<close> (pointers of \<open>w = 8\<close> bytes) and \<open>read_rsdt\<close> (\<open>w = 4\<close>) over the
  entries \<open>i\<close> up to \<open>i + n\<close> of \<open>ptr_table\<close>, which starts at offset 36 of table \<open>t\<close>.
\<close>

fun read_sdt_loop :: "nat \<Rightarrow> acpi_state \<Rightarrow> 64 word \<Rightarrow> 64 word \<Rightarrow> nat \<Rightarrow> (acpi_fatal + acpi_state) option" where
  "read_sdt_loop w s t i 0 = Some (Inr s)"
| "read_sdt_loop w s t i (Suc n) =
     (let hdr = (if w = 8 then read64 (amem s) (t + 36 + 8 * i)
                 else ucast (read32 (amem s) (t + 36 + 4 * i)))
      in case map_table s hdr of
           None \<Rightarrow> None
         | Some (Inl e) \<Rightarrow> Some (Inl e)
         | Some (Inr s1) \<Rightarrow>
             read_sdt_loop w (s1\<lparr>tabs := read_table (amem s1) (tabs s1) hdr\<rparr>) t (i + 1) n)"

text \<open>
  \<open>int tables = (int)(hdr->length - sizeof(*hdr)) / sizeof(uint64_t)\<close>: the difference is
  cut to 32 bits, sign-extended for the unsigned division, and the quotient cut to \<open>int\<close>.
  The loop runs while \<open>i < tables\<close>.
\<close>

definition table_count :: "32 word \<Rightarrow> 64 word \<Rightarrow> nat" where
  "table_count len w =
     (let d = (ucast ((ucast len :: 64 word) - 36) :: 32 word);
          q = (ucast ((scast d :: 64 word) div w) :: 32 word)
      in nat (sint q))"

definition read_xsdt :: "acpi_state \<Rightarrow> (acpi_fatal + acpi_state) option" where
  "read_xsdt s =
     read_sdt_loop 8 s (xsdt (tabs s)) 0 (table_count (read32 (amem s) (xsdt (tabs s) + 4)) 8)"

definition read_rsdt :: "acpi_state \<Rightarrow> (acpi_fatal + acpi_state) option" where
  "read_rsdt s =
     read_sdt_loop 4 s (rsdt (tabs s)) 0 (table_count (read32 (amem s) (rsdt (tabs s) + 4)) 4)"

partial_function (option) find_rsdp_loop :: "memory \<Rightarrow> 64 word \<Rightarrow> 64 word \<Rightarrow> 64 word option" where
  "find_rsdp_loop m ptr term =
     (if ptr < term then
        (if read64 m ptr = SIGNATURE_RSDP then Some ptr else find_rsdp_loop m (ptr + 16) term)
      else Some 0)"

declare find_rsdp_loop.simps [code]

definition find_rsdp :: "memory \<Rightarrow> 64 word \<Rightarrow> 64 word \<Rightarrow> 64 word option" where
  "find_rsdp m a sz = find_rsdp_loop m a (a + sz)"

text \<open>
  \<open>madt_find\<close>: \<open>sizeof(struct acpi_madt)\<close> is 44; an entry has its type at offset 0 and its
  length at offset 1. An entry of length 0 whose type differs is read again and again.
\<close>

partial_function (option) madt_find_loop :: "memory \<Rightarrow> 8 word \<Rightarrow> 64 word \<Rightarrow> 64 word \<Rightarrow> 64 word option" where
  "madt_find_loop m ty ptr term =
     (if ptr < term then
        (if read8 m ptr = ty then Some ptr
         else madt_find_loop m ty (ptr + ucast (read8 m (ptr + 1))) term)
      else Some 0)"

declare madt_find_loop.simps [code]

definition madt_find :: "memory \<Rightarrow> acpi \<Rightarrow> 8 word \<Rightarrow> 64 word \<Rightarrow> 64 word option" where
  "madt_find m a ty prev =
     (if madt a = 0 then Some 0
      else
        let term = madt a + ucast (read32 m (madt a + 4));
            ptr = (if prev = 0 then madt a + 44 else prev + ucast (read8 m (prev + 1)))
        in madt_find_loop m ty ptr term)"

definition acpi_next_local_apic :: "memory \<Rightarrow> acpi \<Rightarrow> 64 word \<Rightarrow> 64 word option" where
  "acpi_next_local_apic m a prev = madt_find m a ACPI_MADT_LOCAL_APIC prev"

definition acpi_next_io_apic :: "memory \<Rightarrow> acpi \<Rightarrow> 64 word \<Rightarrow> 64 word option" where
  "acpi_next_io_apic m a prev = madt_find m a ACPI_MADT_IO_APIC prev"

definition acpi_next_iso :: "memory \<Rightarrow> acpi \<Rightarrow> 64 word \<Rightarrow> 64 word option" where
  "acpi_next_iso m a prev = madt_find m a ACPI_MADT_ISO prev"

text \<open>
  The closing loop of \<open>acpi_init\<close>: every I/O APIC entry adds the page of its address
  (the 32-bit field at offset 4) to the map as Uncached.
\<close>

partial_function (option) io_apic_loop :: "acpi_state \<Rightarrow> 64 word \<Rightarrow> acpi_state option" where
  "io_apic_loop s io =
     (case acpi_next_io_apic (amem s) (tabs s) io of
        None \<Rightarrow> None
      | Some io' \<Rightarrow>
          if io' = 0 then Some s
          else (case pmap_add False (ucast (read32 (amem s) (io' + 4) AND NOT 0xFFF)) PAGE_SIZE
                       PMEMTYPE_UNCACHED (apm s) of
                  None \<Rightarrow> None
                | Some pm' \<Rightarrow> io_apic_loop (s\<lparr>apm := pm'\<rparr>) io'))"

declare io_apic_loop.simps [code]

text \<open>
  The part of \<open>acpi_init\<close> after the RSDP is found. \<open>acpi.xsdt\<close> is still \<open>NULL\<close> when the
  version is 1, so the RSDT is used then.
\<close>

definition acpi_tables :: "acpi_state \<Rightarrow> (acpi_fatal + acpi_state) option" where
  "acpi_tables s =
     (let p = rsdp (tabs s);
          s0 = s\<lparr>tabs := (tabs s)\<lparr>version := uint (read8 (amem s) (p + 15)) + 1\<rparr>\<rparr>;
          x = (if version (tabs s0) > 1 then read64 (amem s0) (p + 24) else xsdt (tabs s0));
          s1 = s0\<lparr>tabs := (tabs s0)\<lparr>xsdt := x\<rparr>\<rparr>;
          r1 = (if version (tabs s0) > 1 \<and> x \<noteq> 0 then
                  (case map_table s1 x of
                     None \<Rightarrow> None
                   | Some (Inl e) \<Rightarrow> Some (Inl e)
                   | Some (Inr s2) \<Rightarrow> read_xsdt s2)
                else Some (Inr s1))
      in case r1 of
           None \<Rightarrow> None
         | Some (Inl e) \<Rightarrow> Some (Inl e)
         | Some (Inr s3) \<Rightarrow>
             let r2 = (if xsdt (tabs s3) = 0 then
                         (let r = (ucast (read32 (amem s3) (p + 16)) :: 64 word);
                              s4 = s3\<lparr>tabs := (tabs s3)\<lparr>rsdt := r\<rparr>\<rparr>
                          in if r = 0 then Some (Inl No_RSDT)
                             else (case map_table s4 r of
                                     None \<Rightarrow> None
                                   | Some (Inl e) \<Rightarrow> Some (Inl e)
                                   | Some (Inr s5) \<Rightarrow> read_rsdt s5))
                       else Some (Inr s3))
             in case r2 of
                  None \<Rightarrow> None
                | Some (Inl e) \<Rightarrow> Some (Inl e)
                | Some (Inr s6) \<Rightarrow>
                    (case (if madt (tabs s6) \<noteq> 0
                           then pmap_add False
                                  (ucast (read32 (amem s6) (madt (tabs s6) + 36) AND NOT 0xFFF))
                                  PAGE_SIZE PMEMTYPE_UNCACHED (apm s6)
                           else Some (apm s6)) of
                       None \<Rightarrow> None
                     | Some pm' \<Rightarrow>
                         (case io_apic_loop (s6\<lparr>apm := pm'\<rparr>) 0 of
                            None \<Rightarrow> None
                          | Some s7 \<Rightarrow> Some (Inr s7))))"

text \<open>
  \<open>acpi_init\<close> starts from the memory and the map the loader left; \<open>struct acpi\<close> is static,
  hence all zero.
\<close>

definition boot_table :: btable where
  "boot_table = \<lparr>root = KMEM_BOOT_PAGETABLE, next_page = KMEM_BOOT_PAGETABLE_LOADED,
                 term_page = KMEM_BOOT_PAGETABLE_END\<rparr>"

definition rsdp_scan :: "memory \<Rightarrow> 64 word option" where
  "rsdp_scan m =
     (case find_rsdp m KMEM_EXTENDED_BIOS KMEM_EXTENDED_BIOS_SIZE of
        None \<Rightarrow> None
      | Some p \<Rightarrow> if p = 0 then find_rsdp m KMEM_SYSTEM_ROM KMEM_SYSTEM_ROM_SIZE else Some p)"

definition acpi_init :: "memory \<Rightarrow> pmap \<Rightarrow> (acpi_fatal + acpi_state) option" where
  "acpi_init m pm =
     (case rsdp_scan m of
        None \<Rightarrow> None
      | Some p \<Rightarrow>
          if p = 0 then Some (Inl No_RSDP)
          else acpi_tables
                 \<lparr>amem = m,
                  bt = boot_table,
                  apm = pm,
                  tabs = \<lparr>version = 0, rsdp = p, rsdt = 0, xsdt = 0, fadt = 0, madt = 0,
                          mcfg = 0\<rparr>\<rparr>)"

subsection \<open>Notions for the effect of the walker on the boot page table\<close>

text \<open>The pages \<open>alloc_page\<close> can still hand out: from \<open>next_page\<close> up to \<open>term_page\<close>.\<close>

definition in_pool :: "btable \<Rightarrow> 64 word \<Rightarrow> bool" where
  "in_pool b c = (next_page b \<le> c \<and> c < term_page b)"

definition pool_ok :: "btable \<Rightarrow> bool" where
  "pool_ok b = (next_page b \<le> term_page b \<and> next_page b AND 0xFFF = 0 \<and> term_page b AND 0xFFF = 0)"

text \<open>
  The translation entries of address \<open>a\<close>: the cells the walk of \<open>is_mapped\<close> reads, from the
  PML4 entry down to the entry at which the walk ends.
\<close>

definition walk_cells :: "memory \<Rightarrow> btable \<Rightarrow> 64 word \<Rightarrow> 64 word list" where
  "walk_cells m b a =
     (let e4 = entry (root b) (PML4E a)
      in if m e4 = 0 then [e4]
         else
           let e3 = entry (PGPTR (m e4)) (PDPTE a)
           in if m e3 = 0 \<or> m e3 AND PF_PS \<noteq> 0 then [e4, e3]
              else
                let e2 = entry (PGPTR (m e3)) (PDE a)
                in if m e2 = 0 \<or> m e2 AND PF_PS \<noteq> 0 then [e4, e3, e2]
                   else [e4, e3, e2, entry (PGPTR (m e2)) (PTE a)])"

text \<open>
  From state \<open>s\<close> to state \<open>s'\<close> the pool has only shrunk, and every cell outside the pool of
  \<open>s\<close> that held a value other than 0 still holds it.
\<close>

definition frame_step :: "memory \<times> btable \<Rightarrow> memory \<times> btable \<Rightarrow> bool" where
  "frame_step s s' =
     (pool_ok (snd s') \<and> root (snd s') = root (snd s) \<and> term_page (snd s') = term_page (snd s) \<and>
      next_page (snd s) \<le> next_page (snd s') \<and>
      (\<forall>c. \<not> in_pool (snd s) c \<longrightarrow> fst s c \<noteq> 0 \<longrightarrow> fst s' c = fst s c))"

text \<open>
  Table \<open>t\<close> is a page taken from the pool of \<open>b\<close> whose entries are 0 or point to \<open>t\<close> itself.
\<close>

definition fresh_table :: "btable \<Rightarrow> memory \<times> btable \<Rightarrow> 64 word \<Rightarrow> bool" where
  "fresh_table b s t =
     (t AND 0xFFF = 0 \<and>
      (\<forall>c. c - t < 0x1000 \<longrightarrow> in_pool b c \<and> (fst s c = 0 \<or> fst s c = t OR PF_PRESENT OR PF_RW)))"



lemma cmp_region_less: "cmp_region a b < 0 \<longleftrightarrow> (lo a < lo b \<or> (lo a = lo b \<and> unat (rsize a) < unat (rsize b)))"
  by (auto simp: cmp_region_def lo_def word_less_nat_alt word_unat_eq_iff)
































lemma lower_bound_not_covered: "lower_bound m rs \<Longrightarrow> b < m \<Longrightarrow> \<not> covered rs b"
  by (auto simp: lower_bound_def covered_def)























lemma fold_max_ge: "a \<le> fold max xs (a :: 64 word)"
proof (induction xs arbitrary: a)
  case Nil
  then show ?case by simp
next
  case (Cons x xs)
  have "a \<le> max x a" by simp
  also have "\<dots> \<le> fold max xs (max x a)" by (rule Cons.IH)
  finally show ?case by simp
qed











section \<open>Page-frame database\<close>

lemma page_init_reserve:
  "reserve_region
     \<lparr>regions = [\<lparr>addr = 0, rsize = 0x200000, rtype = 2, rflags = 0\<rparr>,
                 \<lparr>addr = 0x200000, rsize = 0x203000, rtype = 1, rflags = 0\<rparr>],
      last_usable = 0x403000\<rparr> 0x200000 21
   = Some (0x200000,
       \<lparr>regions = [\<lparr>addr = 0, rsize = 0x400000, rtype = 2, rflags = 0\<rparr>,
                   \<lparr>addr = 0x400000, rsize = 0x3000, rtype = 1, rflags = 0\<rparr>],
        last_usable = 0x403000\<rparr>)"
  by (simp add: reserve_region_def pmap_add_def add_region_def
      pmap_normalize_def qsort_def cmp_region_def collapse_overlaps.simps
      PMEMTYPE_RESERVED_def PMEMTYPE_USABLE_def update_last_usable_def)

lemmas kmem_eval =
  kmem_init_def map_region_def map_region_loop.simps
  create_large_page_def create_small_page_def create_huge_page_def kmem_ensure_def alloc_page_def
  get_pdflags_def get_ptflags_def ebind_def entry_def memzero_def
  PML4E_def PDPTE_def PDE_def PTE_def PGPTR_def PGMASK_ENTRY_def PGMASK_OFFSET_def
  PAGE_SIZE_def PAGE_SIZE_LARGE_def PAGE_SIZE_HUGE_def
  KMEM_KERNEL_PAGETABLE_def KMEM_KERNEL_PAGETABLE_SIZE_def KMEM_KERNEL_PAGETABLE_END_def
  PF_PRESENT_def PF_RW_def PF_SYSTEM_def PF_GLOBAL_def PF_PS_def PF_PWT_def PF_PCD_def
  PMEMTYPE_RESERVED_def PMEMTYPE_USABLE_def PMEMTYPE_ACPI_def PMEMTYPE_ACPI_NVS_def
  PMEMTYPE_BAD_def PMEMTYPE_UNCACHED_def PMEMTYPE_UNMAPPED_def Let_def

lemma page_init_kmem:
  "\<exists>m kpt. kmem_init (\<lambda>_. 0)
       \<lparr>regions = [\<lparr>addr = 0, rsize = 0x400000, rtype = 2, rflags = 0\<rparr>,
                   \<lparr>addr = 0x400000, rsize = 0x3000, rtype = 1, rflags = 0\<rparr>],
        last_usable = 0x403000\<rparr> = Some (Inr (m, kpt))"
  by (simp add: kmem_eval)

text \<open>
  Claim C3 at a concrete input. The map holds a Reserved region \<open>[0, 2 MiB)\<close> and a Usable
  region \<open>[2 MiB, 4 MiB + 12 KiB)\<close>. \<open>page_init\<close> places the database in \<open>[2 MiB, 4 MiB)\<close> and
  chains the three frames 1024, 1025, 1026: \<open>avail\<close> is 3, and both walks of the free list
  meet three frames. After one \<open>pfalloc\<close> both walks meet two frames, and \<open>avail\<close> is still 3:
  \<open>pfalloc\<close> never decrements it.
\<close>

theorem pfalloc_keeps_avail:
  "\<exists>s kpt pm' d.
     page_init (\<lambda>_. 0)
       \<lparr>regions = [\<lparr>addr = 0, rsize = 0x200000, rtype = 2, rflags = 0\<rparr>,
                   \<lparr>addr = 0x200000, rsize = 0x203000, rtype = 1, rflags = 0\<rparr>],
        last_usable = 0x403000\<rparr> = Some (Inr (s, kpt, pm')) \<and>
     avail (db s) = 3 \<and> free_from_head (db s) = [1024, 1025, 1026] \<and>
     free_from_tail (db s) = [1026, 1025, 1024] \<and>
     pfalloc (db s) = Inr (1024, d) \<and>
     avail d = 3 \<and> free_from_head d = [1025, 1026] \<and> free_from_tail d = [1026, 1025]"
proof -
  let ?pm1 = "\<lparr>regions = [\<lparr>addr = 0, rsize = 0x400000, rtype = 2, rflags = 0\<rparr>,
                   \<lparr>addr = 0x400000, rsize = 0x3000, rtype = 1, rflags = 0\<rparr>],
        last_usable = 0x403000\<rparr>"
  obtain m kpt where k: "kmem_init (\<lambda>_. 0) ?pm1 = Some (Inr (m, kpt))"
    using page_init_kmem by blast
  define d0 where "d0 = \<lparr>pfs = (\<lambda>i. pf_zero), npf = 65536, pfcount = 0x403,
                  avail = 0, head = PFN_INVALID, tail = PFN_INVALID\<rparr>"
  define d1 where "d1 = projr (add_all_frames d0 (regions ?pm1))"
  define d2 where "d2 = snd (projr (pfalloc d1))"
  note ev = add_frames_def link_frames.simps ebind_def PMEMTYPE_USABLE_def PFN_INVALID_def
    PFTYPE_AVAILABLE_def PFTYPE_ALLOCATED_def pf_zero_def Let_def d0_def
  have p: "pfalloc d1 = Inr (1024, d2)"
    unfolding d2_def d1_def by (simp add: ev pfalloc_def)
  have f1: "avail d1 = 3" unfolding d1_def by (simp add: ev)
  have f2: "free_from_head d1 = [1024, 1025, 1026]"
    unfolding d1_def by (simp add: ev free_from_head_def walk_next.simps)
  have f3: "free_from_tail d1 = [1026, 1025, 1024]"
    unfolding d1_def by (simp add: ev free_from_tail_def walk_prev.simps)
  have g1: "avail d2 = 3" unfolding d2_def d1_def by (simp add: ev pfalloc_def)
  have g2: "free_from_head d2 = [1025, 1026]"
    unfolding d2_def d1_def by (simp add: ev pfalloc_def free_from_head_def walk_next.simps)
  have g3: "free_from_tail d2 = [1026, 1025]"
    unfolding d2_def d1_def by (simp add: ev pfalloc_def free_from_tail_def walk_prev.simps)
  have "page_init (\<lambda>_. 0)
       \<lparr>regions = [\<lparr>addr = 0, rsize = 0x200000, rtype = 2, rflags = 0\<rparr>,
                   \<lparr>addr = 0x200000, rsize = 0x203000, rtype = 1, rflags = 0\<rparr>],
        last_usable = 0x403000\<rparr>
      = Some (Inr (\<lparr>mem = memzero m 0x200000 0x200000, db = d1\<rparr>, kpt, ?pm1))"
    by (simp add: page_init_def PAGE_SIZE_def PAGE_SIZE_LARGE_def page_init_reserve k d1_def ev)
  then show ?thesis using f1 f2 f3 p g1 g2 g3 by simp
qed

section \<open>Where the SYSTEM flag comes from\<close>

subsection \<open>Every entry kmem\_init writes carries SYSTEM\<close>

lemma or_system: "fl AND PF_SYSTEM \<noteq> 0 \<Longrightarrow> (a OR fl) AND PF_SYSTEM \<noteq> 0"
  by (simp add: bit.conj_disj_distrib2 or_eq_0_iff)

lemma alloc_page_system:
  assumes "alloc_page pt = Inr (v, pt')"
  shows "v AND PF_SYSTEM \<noteq> 0" and "proot pt' = proot pt"
proof -
  have v: "v = vnext pt OR PF_SYSTEM OR PF_PRESENT OR PF_RW" and p: "pt' = pt\<lparr>vnext := vnext pt + PAGE_SIZE\<rparr>"
    using assms by (auto simp: alloc_page_def split: if_splits)
  have "(PF_SYSTEM OR PF_PRESENT OR PF_RW) AND PF_SYSTEM \<noteq> 0"
    by (simp add: PF_SYSTEM_def PF_PRESENT_def PF_RW_def)
  then show "v AND PF_SYSTEM \<noteq> 0" unfolding v using or_system by (simp add: or.assoc)
  show "proot pt' = proot pt" using p by simp
qed

lemma system_area_upd:
  "system_area m \<Longrightarrow> v AND PF_SYSTEM \<noteq> 0 \<Longrightarrow> system_area (m(c := v))"
  by (simp add: system_area_def zero_or_system_def)

lemma kmem_ensure_area:
  assumes "system_area (fst s)" and "kmem_ensure s t i = Inr s'"
  shows "system_area (fst s') \<and> proot (snd s') = proot (snd s)"
proof (cases "fst s (entry t i) = 0")
  case False
  then show ?thesis using assms by (simp add: kmem_ensure_def)
next
  case True
  then obtain v pt' where a: "alloc_page (snd s) = Inr (v, pt')" and s': "s' = ((fst s)(entry t i := v), pt')"
    using assms(2) by (auto simp: kmem_ensure_def ebind_def split: sum.splits)
  show ?thesis using alloc_page_system [OF a] assms(1) s' by (simp add: system_area_upd)
qed

lemma get_pdflags_system:
  assumes "get_pdflags mt = Inr fl" and "mt \<noteq> PMEMTYPE_BAD" and "mt \<noteq> PMEMTYPE_UNMAPPED"
  shows "fl AND PF_SYSTEM \<noteq> 0"
  using assms
  by (auto simp: get_pdflags_def PF_SYSTEM_def PF_PRESENT_def PF_RW_def PF_GLOBAL_def PF_PS_def
      PF_PWT_def PF_PCD_def split: if_splits)

lemma get_ptflags_system:
  assumes "get_ptflags mt = Inr fl" and "mt \<noteq> PMEMTYPE_BAD" and "mt \<noteq> PMEMTYPE_UNMAPPED"
  shows "fl AND PF_SYSTEM \<noteq> 0"
  using assms
  by (auto simp: get_ptflags_def PF_SYSTEM_def PF_PRESENT_def PF_RW_def PF_GLOBAL_def PF_PS_def
      PF_PWT_def PF_PCD_def split: if_splits)

lemma create_huge_page_area:
  assumes a: "system_area (fst s)" and c: "create_huge_page s x mt = Inr s'"
    and t: "mt \<noteq> PMEMTYPE_BAD" "mt \<noteq> PMEMTYPE_UNMAPPED"
  shows "system_area (fst s') \<and> proot (snd s') = proot (snd s)"
proof -
  obtain s1 where 1: "kmem_ensure s (proot (snd s)) (PML4E x) = Inr s1"
    using c by (cases "kmem_ensure s (proot (snd s)) (PML4E x)")
      (auto simp: create_huge_page_def ebind_def)
  obtain fl where f: "get_pdflags mt = Inr fl"
    using c 1 by (cases "get_pdflags mt") (auto simp: create_huge_page_def ebind_def Let_def)
  have s': "\<exists>c. s' = ((fst s1)(c := x OR fl), snd s1)"
    using c 1 f by (auto simp: create_huge_page_def ebind_def Let_def)
  note k1 = kmem_ensure_area [OF a 1]
  show ?thesis
    using k1 s' or_system [OF get_pdflags_system [OF f t]] by (auto simp: system_area_upd)
qed

lemma create_large_page_area:
  assumes a: "system_area (fst s)" and c: "create_large_page s x mt = Inr s'"
    and t: "mt \<noteq> PMEMTYPE_BAD" "mt \<noteq> PMEMTYPE_UNMAPPED"
  shows "system_area (fst s') \<and> proot (snd s') = proot (snd s)"
proof -
  obtain s1 where 1: "kmem_ensure s (proot (snd s)) (PML4E x) = Inr s1"
    using c by (cases "kmem_ensure s (proot (snd s)) (PML4E x)")
      (auto simp: create_large_page_def ebind_def)
  define t1 where "t1 = PGPTR (fst s1 (entry (proot (snd s1)) (PML4E x)))"
  obtain s2 where 2: "kmem_ensure s1 t1 (PDPTE x) = Inr s2"
    using c 1 by (cases "kmem_ensure s1 t1 (PDPTE x)")
      (auto simp: create_large_page_def ebind_def Let_def t1_def)
  obtain fl where f: "get_pdflags mt = Inr fl"
    using c 1 2 by (cases "get_pdflags mt")
      (auto simp: create_large_page_def ebind_def Let_def t1_def)
  have s': "\<exists>c. s' = ((fst s2)(c := x OR fl), snd s2)"
    using c 1 2 f by (auto simp: create_large_page_def ebind_def Let_def t1_def)
  note k1 = kmem_ensure_area [OF a 1]
  note k2 = kmem_ensure_area [OF conjunct1 [OF k1] 2]
  show ?thesis
    using k1 k2 s' or_system [OF get_pdflags_system [OF f t]] by (auto simp: system_area_upd)
qed

lemma create_small_page_area:
  assumes a: "system_area (fst s)" and c: "create_small_page s x mt = Inr s'"
    and t: "mt \<noteq> PMEMTYPE_BAD" "mt \<noteq> PMEMTYPE_UNMAPPED"
  shows "system_area (fst s') \<and> proot (snd s') = proot (snd s)"
proof -
  obtain s1 where 1: "kmem_ensure s (proot (snd s)) (PML4E x) = Inr s1"
    using c by (cases "kmem_ensure s (proot (snd s)) (PML4E x)")
      (auto simp: create_small_page_def ebind_def)
  define t1 where "t1 = PGPTR (fst s1 (entry (proot (snd s1)) (PML4E x)))"
  obtain s2 where 2: "kmem_ensure s1 t1 (PDPTE x) = Inr s2"
    using c 1 by (cases "kmem_ensure s1 t1 (PDPTE x)")
      (auto simp: create_small_page_def ebind_def Let_def t1_def)
  define t2 where "t2 = PGPTR (fst s2 (entry t1 (PDPTE x)))"
  obtain s3 where 3: "kmem_ensure s2 t2 (PDE x) = Inr s3"
    using c 1 2 by (cases "kmem_ensure s2 t2 (PDE x)")
      (auto simp: create_small_page_def ebind_def Let_def t1_def t2_def)
  obtain fl where f: "get_ptflags mt = Inr fl"
    using c 1 2 3 by (cases "get_ptflags mt")
      (auto simp: create_small_page_def ebind_def Let_def t1_def t2_def)
  have s': "\<exists>c. s' = ((fst s3)(c := x OR fl), snd s3)"
    using c 1 2 3 f by (auto simp: create_small_page_def ebind_def Let_def t1_def t2_def)
  note k1 = kmem_ensure_area [OF a 1]
  note k2 = kmem_ensure_area [OF conjunct1 [OF k1] 2]
  note k3 = kmem_ensure_area [OF conjunct1 [OF k2] 3]
  show ?thesis
    using k1 k2 k3 s' or_system [OF get_ptflags_system [OF f t]] by (auto simp: system_area_upd)
qed

lemma map_region_loop_area:
  assumes "map_region_loop s mt a tm = Some y"
  shows "\<forall>s'. y = Inr s' \<longrightarrow> mt \<noteq> PMEMTYPE_BAD \<longrightarrow> mt \<noteq> PMEMTYPE_UNMAPPED \<longrightarrow>
             system_area (fst s) \<longrightarrow> system_area (fst s') \<and> proot (snd s') = proot (snd s)"
proof (rule map_region_loop.raw_induct [OF _ assms])
  fix f :: "memory \<times> pagetable \<Rightarrow> int \<Rightarrow> 64 word \<Rightarrow> 64 word \<Rightarrow> (error + memory \<times> pagetable) option"
    and s mt a tm y
  assume IH: "\<And>s mt a tm y. f s mt a tm = Some y \<Longrightarrow>
      \<forall>s'. y = Inr s' \<longrightarrow> mt \<noteq> PMEMTYPE_BAD \<longrightarrow> mt \<noteq> PMEMTYPE_UNMAPPED \<longrightarrow>
             system_area (fst s) \<longrightarrow> system_area (fst s') \<and> proot (snd s') = proot (snd s)"
  assume b: "(if a < tm then
        let remain = tm - a
        in
          if a AND (PAGE_SIZE_HUGE - 1) = 0 \<and> remain \<ge> PAGE_SIZE_HUGE then
            (case create_huge_page s a mt of
               Inl e \<Rightarrow> Some (Inl e)
             | Inr s' \<Rightarrow> f s' mt (a + PAGE_SIZE_HUGE) tm)
          else if a AND (PAGE_SIZE_LARGE - 1) = 0 \<and> remain \<ge> PAGE_SIZE_LARGE then
            (case create_large_page s a mt of
               Inl e \<Rightarrow> Some (Inl e)
             | Inr s' \<Rightarrow> f s' mt (a + PAGE_SIZE_LARGE) tm)
          else
            (case create_small_page s a mt of
               Inl e \<Rightarrow> Some (Inl e)
             | Inr s' \<Rightarrow> f s' mt (a + PAGE_SIZE) tm)
      else Some (Inr s)) = Some y"
  show "\<forall>s'. y = Inr s' \<longrightarrow> mt \<noteq> PMEMTYPE_BAD \<longrightarrow> mt \<noteq> PMEMTYPE_UNMAPPED \<longrightarrow>
             system_area (fst s) \<longrightarrow> system_area (fst s') \<and> proot (snd s') = proot (snd s)"
  proof (intro allI impI)
    fix s'
    assume y: "y = Inr s'" and t: "mt \<noteq> PMEMTYPE_BAD" "mt \<noteq> PMEMTYPE_UNMAPPED"
      and a: "system_area (fst s)"
    have step: "system_area (fst s') \<and> proot (snd s') = proot (snd s)"
      if c: "system_area (fst s1) \<and> proot (snd s1) = proot (snd s)" and r: "f s1 mt a1 tm = Some y"
      for s1 a1
      using IH [OF r] y t c by simp
    show "system_area (fst s') \<and> proot (snd s') = proot (snd s)"
    proof (cases "a < tm")
      case False
      then show ?thesis using b y a by simp
    next
      case True
      show ?thesis
      proof (cases "a AND (PAGE_SIZE_HUGE - 1) = 0 \<and> tm - a \<ge> PAGE_SIZE_HUGE")
        case h: True
        show ?thesis
        proof (cases "create_huge_page s a mt")
          case (Inl e)
          then show ?thesis using b True h y by (simp add: Let_def)
        next
          case (Inr s1)
          then have "f s1 mt (a + PAGE_SIZE_HUGE) tm = Some y" using b True h by (simp add: Let_def)
          then show ?thesis using step create_huge_page_area [OF a Inr t] by blast
        qed
      next
        case h: False
        show ?thesis
        proof (cases "a AND (PAGE_SIZE_LARGE - 1) = 0 \<and> tm - a \<ge> PAGE_SIZE_LARGE")
          case l: True
          show ?thesis
          proof (cases "create_large_page s a mt")
            case (Inl e)
            then show ?thesis using b True h l y by (simp add: Let_def)
          next
            case (Inr s1)
            then have "f s1 mt (a + PAGE_SIZE_LARGE) tm = Some y"
              using b True h l by (simp add: Let_def)
            then show ?thesis using step create_large_page_area [OF a Inr t] by blast
          qed
        next
          case l: False
          show ?thesis
          proof (cases "create_small_page s a mt")
            case (Inl e)
            then show ?thesis using b True h l y by (simp add: Let_def)
          next
            case (Inr s1)
            then have "f s1 mt (a + PAGE_SIZE) tm = Some y"
              using b True h l by (simp add: Let_def)
            then show ?thesis using step create_small_page_area [OF a Inr t] by blast
          qed
        qed
      qed
    qed
  qed
qed

lemma map_region_area:
  assumes "map_region s pm r = Some (Inr s')" and "system_area (fst s)"
  shows "system_area (fst s') \<and> proot (snd s') = proot (snd s)"
proof (cases "rtype r = PMEMTYPE_UNMAPPED \<or> rtype r = PMEMTYPE_BAD \<or>
    (rtype r = PMEMTYPE_RESERVED \<and> addr r \<ge> last_usable pm)")
  case True
  then have "s' = s" using assms(1) by (auto simp: map_region_def split: if_splits)
  then show ?thesis using assms(2) by simp
next
  case False
  then have "map_region_loop s (rtype r) (addr r) (addr r + rsize r) = Some (Inr s')"
    using assms(1) by (auto simp: map_region_def split: if_splits)
  from map_region_loop_area [OF this] False assms(2) show ?thesis by blast
qed

lemma map_regions_area:
  assumes "map_regions s pm rs = Some (Inr s')" and "system_area (fst s)"
  shows "system_area (fst s') \<and> proot (snd s') = proot (snd s)"
  using assms
proof (induction rs arbitrary: s)
  case Nil
  then show ?case by simp
next
  case (Cons r rs)
  from Cons.prems(1) obtain s1 where 1: "map_region s pm r = Some (Inr s1)"
    and 2: "map_regions s1 pm rs = Some (Inr s')"
    by (auto split: option.splits sum.splits)
  from map_region_area [OF 1 Cons.prems(2)] Cons.IH [OF 2] show ?case by simp
qed

lemma kmem_init_area:
  assumes "kmem_init m pm = Some (Inr (m', kpt))"
  shows "system_area m'" and "proot kpt = KMEM_KERNEL_PAGETABLE"
proof -
  have "system_area (memzero m KMEM_KERNEL_PAGETABLE KMEM_KERNEL_PAGETABLE_SIZE)"
    by (simp add: system_area_def memzero_def zero_or_system_def)
  from map_regions_area [OF assms [unfolded kmem_init_def]] this
  show "system_area m'" and "proot kpt = KMEM_KERNEL_PAGETABLE" by simp_all
qed

lemma entry_in_area: "i < 512 \<Longrightarrow>
  entry KMEM_KERNEL_PAGETABLE (word_of_nat i) - KMEM_KERNEL_PAGETABLE < KMEM_KERNEL_PAGETABLE_SIZE"
proof -
  assume "i < 512"
  then have "unat (word_of_nat i :: 64 word) = i" by (simp add: unsigned_of_nat take_bit_nat_eq_self)
  then have "unat (8 * word_of_nat i :: 64 word) = 8 * i"
    using \<open>i < 512\<close> by (simp add: unat_word_ariths)
  then show ?thesis using \<open>i < 512\<close>
    by (simp add: entry_def KMEM_KERNEL_PAGETABLE_SIZE_def word_less_nat_alt)
qed

lemma kmem_init_system_table:
  assumes "kmem_init m pm = Some (Inr (m', kpt))"
  shows "system_table m' (proot kpt)"
  using kmem_init_area [OF assms] entry_in_area
  by (auto simp: system_table_def list_all_iff system_area_def)

subsection \<open>pagetable\_create copies the kernel's root\<close>

lemma copy_fold_system:
  assumes "\<forall>i<512. zero_or_system (m (entry src (word_of_nat i)))" and "n \<le> 512"
  shows "(\<forall>i<512. zero_or_system
            (fold (\<lambda>i m'. m'(entry dst (word_of_nat i) := m' (entry src (word_of_nat i)))) [0..<n] m
               (entry src (word_of_nat i)))) \<and>
         (\<forall>i<n. zero_or_system
            (fold (\<lambda>i m'. m'(entry dst (word_of_nat i) := m' (entry src (word_of_nat i)))) [0..<n] m
               (entry dst (word_of_nat i))))"
  using assms(2)
proof (induction n)
  case 0
  then show ?case using assms(1) by simp
next
  case (Suc n)
  let ?f = "\<lambda>i m'. m'(entry dst (word_of_nat i) := m' (entry src (word_of_nat i)))"
  define r where "r = fold ?f [0..<n] m"
  have n: "n < 512" using Suc.prems by simp
  then have "n \<le> 512" by simp
  note ih0 = Suc.IH [OF this, folded r_def]
  have ih: "\<forall>i<512. zero_or_system (r (entry src (word_of_nat i)))"
    "\<forall>i<n. zero_or_system (r (entry dst (word_of_nat i)))"
    using ih0 by blast+
  have r': "fold ?f [0..<Suc n] m = r(entry dst (word_of_nat n) := r (entry src (word_of_nat n)))"
    by (simp add: r_def)
  have v: "zero_or_system (r (entry src (word_of_nat n)))" using ih(1) n by blast
  have k: "zero_or_system ((r(entry dst (word_of_nat n) := r (entry src (word_of_nat n)))) c)"
    if "zero_or_system (r c)" for c
    using that v by simp
  show ?case unfolding r' using ih k v by (auto simp: less_Suc_eq)
qed

lemma copy_entries_system:
  assumes "system_table m src"
  shows "system_table (copy_entries m src dst) dst"
  using copy_fold_system [of m src 512 dst] assms
  by (simp add: system_table_def list_all_iff copy_entries_def)

lemma memzero_system_table: "system_table m t \<Longrightarrow> system_table (memzero m p n) t"
  by (simp add: system_table_def list_all_iff memzero_def zero_or_system_def)

lemma pagetable_create_system:
  assumes "system_table (mem s) (proot kpt)" and "pagetable_create s kpt v sz = Inr (s', pt)"
  shows "system_table (mem s') (proot pt)"
proof -
  obtain i d' where
    "s' = \<lparr>mem = copy_entries (memzero (mem s) (PF_TO_PADDR i) PAGE_SIZE) (proot kpt) (PF_TO_PADDR i),
           db = d'\<rparr>"
    and "proot pt = PF_TO_PADDR i"
    using assms(2)
    by (auto simp: pagetable_create_def pgalloc_def ebind_def Let_def split: if_splits sum.splits)
  then show ?thesis
    using copy_entries_system [OF memzero_system_table [OF assms(1)]] by simp
qed

subsection \<open>The teardown and the frames that are not Allocated\<close>

lemma pgfree_type:
  assumes "pgfree d paddr = Inr d'" and "pf_type (pfs d (PADDR_TO_PF paddr)) = PFTYPE_ALLOCATED"
    and "pf_type (pfs d j) \<noteq> PFTYPE_ALLOCATED"
  shows "pf_type (pfs d' j) = pf_type (pfs d j)"
  using assms
  by (auto simp: pgfree_def pffree_def Let_def split: if_splits)

lemma pgfree_npf: "pgfree d paddr = Inr d' \<Longrightarrow> npf d' = npf d"
  by (auto simp: pgfree_def pffree_def Let_def split: if_splits)

lemma pgfree_walk_type:
  "pgfree_walk m level page e d = Inr d' \<Longrightarrow>
     npf d' = npf d \<and>
     (\<forall>j. pf_type (pfs d j) \<noteq> PFTYPE_ALLOCATED \<longrightarrow> pf_type (pfs d' j) = pf_type (pfs d j))"
proof (induction m level page e d arbitrary: d' rule: pgfree_walk.induct)
  case (1 m level page e d)
  note w = "1.prems" [unfolded pgfree_walk.simps [of m level page e d]]
  show ?case
  proof (cases "level = 0 \<or> \<not> e < 512")
    case True
    then show ?thesis using w by (auto split: if_splits)
  next
    case False
    then have l: "level \<noteq> 0" and e: "e < 512" by auto
    show ?thesis
    proof (cases "level = 1")
      case True
      define paddr where "paddr = PGPTR (m (entry page (word_of_nat e)))"
      show ?thesis
      proof (cases "paddr = 0")
        case z: True
        then have "pgfree_walk m level page (e + 1) d = Inr d'"
          using w l e True by (simp add: paddr_def Let_def)
        from "1.IH"(1) [OF l _ True paddr_def z this] e show ?thesis by simp
      next
        case nz: False
        have b: "PADDR_TO_PF paddr < npf d"
          using w l e True nz by (auto simp: paddr_def Let_def split: if_splits)
        show ?thesis
        proof (cases "pf_type (pfs d (PADDR_TO_PF paddr)) = PFTYPE_ALLOCATED")
          case al: True
          then obtain d1 where f: "pgfree d paddr = Inr d1"
            and r: "pgfree_walk m level page (e + 1) d1 = Inr d'"
            using w l e True nz b by (auto simp: paddr_def Let_def split: sum.splits)
          have b': "\<not> \<not> PADDR_TO_PF paddr < npf d" using b by simp
          from "1.IH"(2) [OF l _ True paddr_def nz b' al f r] e
          have i: "npf d' = npf d1"
            "\<forall>j. pf_type (pfs d1 j) \<noteq> PFTYPE_ALLOCATED \<longrightarrow> pf_type (pfs d' j) = pf_type (pfs d1 j)"
            by simp_all
          show ?thesis using i pgfree_type [OF f al] pgfree_npf [OF f] by auto
        next
          case na: False
          then have r: "pgfree_walk m level page (e + 1) d = Inr d'"
            using w l e True nz b by (auto simp: paddr_def Let_def)
          have b': "\<not> \<not> PADDR_TO_PF paddr < npf d" using b by simp
          from "1.IH"(3) [OF l _ True paddr_def nz b' na r] e show ?thesis by simp
        qed
      qed
    next
      case False
      show ?thesis
      proof (cases "m (entry page (word_of_nat e)) AND PF_SYSTEM \<noteq> 0")
        case sy: True
        then have r: "pgfree_walk m level page (e + 1) d = Inr d'"
          using w l e False by simp
        from "1.IH"(4) [OF l _ False sy r] e show ?thesis by simp
      next
        case ns: False
        define child where "child = PGPTR (m (entry page (word_of_nat e)))"
        show ?thesis
        proof (cases "child = 0")
          case z: True
          then have r: "pgfree_walk m level page (e + 1) d = Inr d'"
            using w l e False ns by (simp add: child_def Let_def)
          from "1.IH"(5) [OF l _ False ns child_def z r] e show ?thesis by simp
        next
          case nz: False
          then obtain d1 where c: "pgfree_walk m (level - 1) child 0 d = Inr d1"
            and r: "pgfree_walk m level page (e + 1) d1 = Inr d'"
            using w l e False ns by (auto simp: child_def Let_def split: sum.splits)
          from "1.IH"(6) [OF l _ False ns child_def nz c] e
          have i1: "npf d1 = npf d"
            "\<forall>j. pf_type (pfs d j) \<noteq> PFTYPE_ALLOCATED \<longrightarrow> pf_type (pfs d1 j) = pf_type (pfs d j)"
            by simp_all
          from "1.IH"(7) [OF l _ False ns child_def nz c r] e
          have i2: "npf d' = npf d1"
            "\<forall>j. pf_type (pfs d1 j) \<noteq> PFTYPE_ALLOCATED \<longrightarrow> pf_type (pfs d' j) = pf_type (pfs d1 j)"
            by simp_all
          show ?thesis using i1 i2 by auto
        qed
      qed
    qed
  qed
qed

lemma pgfree_walk_system:
  assumes "system_table m page" and "1 < level"
  shows "pgfree_walk m level page e d = Inr d"
proof (induction "512 - e" arbitrary: e)
  case 0
  then show ?case using assms(2) by (subst pgfree_walk.simps) simp
next
  case (Suc k)
  then have e: "e < 512" by simp
  have ih: "pgfree_walk m level page (e + 1) d = Inr d" using Suc by simp
  have "zero_or_system (m (entry page (word_of_nat e)))"
    using assms(1) e by (simp add: system_table_def list_all_iff)
  then show ?case
    using assms(2) e ih
    by (subst pgfree_walk.simps) (auto simp: zero_or_system_def PGPTR_def Let_def)
qed

lemma pgfree_walk_skip:
  assumes "e < 512" and "1 < level" and "m (entry page (word_of_nat e)) AND PF_SYSTEM \<noteq> 0"
  shows "pgfree_walk m level page e d = pgfree_walk m level page (e + 1) d"
  using assms by (subst pgfree_walk.simps) simp

subsection \<open>add\_pte writes no entry with SYSTEM\<close>

lemma no_system_added_refl: "no_system_added m m"
  by (simp add: no_system_added_def)

lemma no_system_added_trans:
  "no_system_added m m1 \<Longrightarrow> no_system_added m1 m2 \<Longrightarrow> no_system_added m m2"
  unfolding no_system_added_def by metis

lemma no_system_added_upd:
  "no_system_added m m1 \<Longrightarrow> v AND PF_SYSTEM = 0 \<Longrightarrow> no_system_added m (m1(c := v))"
  by (simp add: no_system_added_def)

lemma frame_no_system: "PF_TO_PADDR i AND PF_SYSTEM = 0"
proof -
  have e: "PF_SYSTEM = 2 ^ 9" by (simp add: PF_SYSTEM_def)
  have "\<not> bit (push_bit 12 (word_of_nat i :: 64 word)) 9" by (simp add: bit_push_bit_iff)
  then show ?thesis unfolding PF_TO_PADDR_def e by (simp only: and_exp_eq_0_iff_not_bit) simp
qed

lemma or_no_system: "a AND PF_SYSTEM = 0 \<Longrightarrow> b AND PF_SYSTEM = 0 \<Longrightarrow> (a OR b) AND PF_SYSTEM = 0"
  by (simp add: bit.conj_disj_distrib2)

lemma present_rw_no_system: "(PF_PRESENT OR PF_RW) AND PF_SYSTEM = 0"
  by (simp add: PF_PRESENT_def PF_RW_def PF_SYSTEM_def)

lemma pgalloc_no_system:
  assumes "pgalloc s = Inr (pg, s')"
  shows "pg AND PF_SYSTEM = 0" and "no_system_added (mem s) (mem s')"
proof -
  obtain i d' where pg: "pg = PF_TO_PADDR i"
    and s': "s' = \<lparr>mem = memzero (mem s) (PF_TO_PADDR i) PAGE_SIZE, db = d'\<rparr>"
    using assms by (auto simp: pgalloc_def ebind_def Let_def split: sum.splits)
  show "pg AND PF_SYSTEM = 0" using pg frame_no_system by simp
  show "no_system_added (mem s) (mem s')"
    using s' by (simp add: no_system_added_def memzero_def)
qed

lemma add_pte_level_no_system:
  assumes "add_pte_level chk (s, ad) t i = Inr (s', ad')" and "list_all (\<lambda>a. a AND PF_SYSTEM = 0) ad"
  shows "no_system_added (mem s) (mem s')" and "list_all (\<lambda>a. a AND PF_SYSTEM = 0) ad'"
proof -
  show "no_system_added (mem s) (mem s')"
  proof (cases "mem s (entry t i) = 0")
    case False
    then show ?thesis using assms(1)
      by (auto simp: add_pte_level_def no_system_added_refl split: if_splits)
  next
    case True
    then obtain pg s1 where p: "pgalloc s = Inr (pg, s1)"
      and s': "s' = s1\<lparr>mem := (mem s1)(entry t i := pg OR PF_PRESENT OR PF_RW)\<rparr>"
      using assms(1) by (auto simp: add_pte_level_def ebind_def split: sum.splits)
    have "(pg OR PF_PRESENT OR PF_RW) AND PF_SYSTEM = 0"
      using or_no_system [OF pgalloc_no_system(1) [OF p] present_rw_no_system]
      by (simp add: or.assoc)
    then show ?thesis
      using pgalloc_no_system(2) [OF p] s' by (simp add: no_system_added_upd)
  qed
  show "list_all (\<lambda>a. a AND PF_SYSTEM = 0) ad'"
  proof (cases "mem s (entry t i) = 0")
    case False
    then show ?thesis using assms
      by (auto simp: add_pte_level_def split: if_splits)
  next
    case True
    then obtain pg s1 where p: "pgalloc s = Inr (pg, s1)" and a: "ad' = ad @ [pg]"
      using assms(1) by (auto simp: add_pte_level_def ebind_def split: sum.splits)
    show ?thesis using a assms(2) pgalloc_no_system(1) [OF p] by simp
  qed
qed

lemma add_pte_walk_no_system:
  assumes w: "add_pte_walk s pt vaddr paddr pflags = Inr (s', ad)"
    and c: "(paddr OR ucast pflags) AND PF_SYSTEM = 0"
  shows "no_system_added (mem s) (mem s')" and "list_all (\<lambda>a. a AND PF_SYSTEM = 0) ad"
proof -
  obtain s1 a1 where 1: "add_pte_level True (s, []) (proot pt) (PML4E vaddr) = Inr (s1, a1)"
    using w by (cases "add_pte_level True (s, []) (proot pt) (PML4E vaddr)")
      (auto simp: add_pte_walk_def ebind_def)
  define t1 where "t1 = PGPTR (mem s1 (entry (proot pt) (PML4E vaddr)))"
  obtain s2 a2 where 2: "add_pte_level False (s1, a1) t1 (PDPTE vaddr) = Inr (s2, a2)"
    using w 1 by (cases "add_pte_level False (s1, a1) t1 (PDPTE vaddr)")
      (auto simp: add_pte_walk_def ebind_def Let_def t1_def)
  define t2 where "t2 = PGPTR (mem s2 (entry t1 (PDPTE vaddr)))"
  obtain s3 a3 where 3: "add_pte_level False (s2, a2) t2 (PDE vaddr) = Inr (s3, a3)"
    using w 1 2 by (cases "add_pte_level False (s2, a2) t2 (PDE vaddr)")
      (auto simp: add_pte_walk_def ebind_def Let_def t1_def t2_def)
  have s': "\<exists>c. s' = s3\<lparr>mem := (mem s3)(c := paddr OR ucast pflags)\<rparr>" and ad: "ad = a3"
    using w 1 2 3 by (auto simp: add_pte_walk_def ebind_def Let_def t1_def t2_def)
  note k1 = add_pte_level_no_system [OF 1]
  have n1: "no_system_added (mem s) (mem s1)" and l1: "list_all (\<lambda>a. a AND PF_SYSTEM = 0) a1"
    using k1 by simp_all
  note k2 = add_pte_level_no_system [OF 2 l1]
  note k3 = add_pte_level_no_system [OF 3 k2(2)]
  have "no_system_added (mem s) (mem s3)"
    using n1 k2(1) k3(1) no_system_added_trans by blast
  then show "no_system_added (mem s) (mem s')"
    using s' c by (auto simp: no_system_added_upd)
  show "list_all (\<lambda>a. a AND PF_SYSTEM = 0) ad" using k3(2) ad by simp
qed

lemma add_pte_run_no_system:
  assumes "add_pte_run s pt task = Some y"
  shows "\<forall>s' pt'. y = Inr (s', pt') \<longrightarrow> task_clean task \<longrightarrow> no_system_added (mem s) (mem s')"
proof (rule add_pte_run.raw_induct [OF _ assms])
  fix f :: "pstate \<Rightarrow> pagetable \<Rightarrow> pte_task \<Rightarrow> (error + pstate \<times> pagetable) option"
    and s pt task y
  assume IH: "\<And>s pt task y. f s pt task = Some y \<Longrightarrow>
      \<forall>s' pt'. y = Inr (s', pt') \<longrightarrow> task_clean task \<longrightarrow> no_system_added (mem s) (mem s')"
  assume b: "(case task of
        Pte vaddr paddr pflags addflags \<Rightarrow>
          if addflags AND CONTAINS_TABLE \<noteq> 0 \<and> vaddr \<ge> vterm pt then Some (Inl Fatal)
          else (case add_pte_walk s pt vaddr paddr pflags of
                  Inl e \<Rightarrow> Some (Inl e)
                | Inr (s', added) \<Rightarrow> f s' pt (Added added))
      | Added [] \<Rightarrow> Some (Inr (s, pt))
      | Added (a # as) \<Rightarrow>
          Option.bind
            (f s pt (Pte (vnext pt) a (ucast (PF_PRESENT OR PF_RW)) CONTAINS_TABLE))
            (\<lambda>r. case r of
                   Inl e \<Rightarrow> Some (Inl e)
                 | Inr (s', pt') \<Rightarrow>
                     f s' (pt'\<lparr>vnext := vnext pt' + PAGE_SIZE\<rparr>) (Added as))) = Some y"
  show "\<forall>s' pt'. y = Inr (s', pt') \<longrightarrow> task_clean task \<longrightarrow> no_system_added (mem s) (mem s')"
  proof (intro allI impI)
    fix s' pt'
    assume y: "y = Inr (s', pt')" and c: "task_clean task"
    show "no_system_added (mem s) (mem s')"
    proof (cases task)
      case (Pte vaddr paddr pflags addflags)
      then obtain s1 ad where w: "add_pte_walk s pt vaddr paddr pflags = Inr (s1, ad)"
        and r: "f s1 pt (Added ad) = Some y"
        using b y by (auto split: if_splits sum.splits)
      have cl: "(paddr OR ucast pflags) AND PF_SYSTEM = 0" using c Pte by simp
      note k = add_pte_walk_no_system [OF w cl]
      have "no_system_added (mem s1) (mem s')" using IH [OF r] y k(2) by simp
      then show ?thesis using k(1) no_system_added_trans by blast
    next
      case (Added as)
      show ?thesis
      proof (cases as)
        case Nil
        then show ?thesis using b y Added by (simp add: no_system_added_refl)
      next
        case (Cons a as')
        then obtain r where
          r1: "f s pt (Pte (vnext pt) a (ucast (PF_PRESENT OR PF_RW)) CONTAINS_TABLE) = Some r"
          and r2: "(case r of Inl e \<Rightarrow> Some (Inl e)
                    | Inr (s', pt') \<Rightarrow> f s' (pt'\<lparr>vnext := vnext pt' + PAGE_SIZE\<rparr>) (Added as'))
                   = Some y"
          using b Added by (auto simp: bind_eq_Some_conv)
        obtain s1 pt1 where r: "r = Inr (s1, pt1)"
          using r2 y by (cases r) auto
        have 1: "f s pt (Pte (vnext pt) a (ucast (PF_PRESENT OR PF_RW)) CONTAINS_TABLE) = Some (Inr (s1, pt1))"
          using r1 r by simp
        have 2: "f s1 (pt1\<lparr>vnext := vnext pt1 + PAGE_SIZE\<rparr>) (Added as') = Some y"
          using r2 r by simp
        have a: "a AND PF_SYSTEM = 0" and as': "list_all (\<lambda>a. a AND PF_SYSTEM = 0) as'"
          using c Added Cons by simp_all
        have "(ucast (ucast (PF_PRESENT OR PF_RW) :: 32 word) :: 64 word) AND PF_SYSTEM = 0"
          by (simp add: PF_PRESENT_def PF_RW_def PF_SYSTEM_def)
        then have "task_clean (Pte (vnext pt) a (ucast (PF_PRESENT OR PF_RW)) CONTAINS_TABLE)"
          using a by (simp add: or_no_system)
        then have n1: "no_system_added (mem s) (mem s1)" using IH [OF 1] by simp
        have "no_system_added (mem s1) (mem s')" using IH [OF 2] y as' by simp
        then show ?thesis using n1 no_system_added_trans by blast
      qed
    qed
  qed
qed

lemma add_pte_no_system:
  assumes "add_pte s pt vaddr paddr pflags addflags = Some (Inr (s', pt'))"
    and "(paddr OR ucast pflags) AND PF_SYSTEM = 0"
  shows "no_system_added (mem s) (mem s')"
  using add_pte_run_no_system [OF assms(1) [unfolded add_pte_def]] assms(2) by simp

section \<open>add\_pte and entries flagged SYSTEM\<close>


lemma index_512: "\<exists>i<512. (x :: 64 word) AND PGMASK_ENTRY = word_of_nat i"
proof -
  have "x AND 0x1ff \<le> 0x1ff" by (rule word_and_le1)
  then have "unat (x AND 0x1ff) < 512" by (simp add: word_le_nat_alt)
  then show ?thesis unfolding PGMASK_ENTRY_def
    by (intro exI [of _ "unat (x AND 0x1ff)"]) simp
qed

lemma system_table_entry:
  assumes "system_table m tbl"
  shows "zero_or_system (m (entry tbl (x AND PGMASK_ENTRY)))"
proof -
  obtain i where "i < 512" "x AND PGMASK_ENTRY = word_of_nat i" using index_512 by blast
  then show ?thesis using assms by (auto simp: system_table_def list_all_iff)
qed

lemma system_table_inherited: "system_table m tbl \<Longrightarrow> system_inherited m tbl v"
  using system_table_entry [of m tbl "drop_bit 39 v"]
  by (auto simp: system_inherited_def zero_or_system_def PML4E_def Let_def)


lemma kmem_init_example:
  "\<exists>m kpt. kmem_init (\<lambda>_. 0)
           \<lparr>regions = [\<lparr>addr = 0, rsize = 0x400000, rtype = 2, rflags = 0\<rparr>,
                      \<lparr>addr = 0x400000, rsize = 0x3000, rtype = 1, rflags = 0\<rparr>],
            last_usable = 0x403000\<rparr> = Some (Inr (m, kpt)) \<and>
     proot kpt = 0x20000 \<and> m 0x20000 = 0x21203 \<and> m 0x21000 = 0x22203 \<and> m 0x22010 = 0x23203"
  by (simp add: kmem_eval)


section \<open>pagetable\_destroy and the kernel's tables\<close>

lemma pagetable_destroy_fresh:
  assumes "system_table (mem s) (proot pt)" and "proot pt \<noteq> 0"
  shows "pagetable_destroy s pt = Inr (s, \<lparr>proot = 0, vroot = 0, vnext = 0, vterm = 0\<rparr>)"
  using assms pgfree_walk_system [of "mem s" "proot pt" 4 0 "db s"]
  by (simp add: pagetable_destroy_def pgfree_recurse_def ebind_def)

lemma pagetable_destroy_type:
  assumes "pagetable_destroy s pt = Inr (s', pt')"
  shows "mem s' = mem s" and "npf (db s') = npf (db s)"
    and "\<forall>j. pf_type (pfs (db s) j) \<noteq> PFTYPE_ALLOCATED \<longrightarrow>
             pf_type (pfs (db s') j) = pf_type (pfs (db s) j)"
proof -
  obtain d' where w: "pgfree_walk (mem s) 4 (proot pt) 0 (db s) = Inr d'" and s': "s' = s\<lparr>db := d'\<rparr>"
    using assms
    by (auto simp: pagetable_destroy_def pgfree_recurse_def ebind_def split: if_splits sum.splits)
  show "mem s' = mem s" using s' by simp
  show "npf (db s') = npf (db s)" using pgfree_walk_type [OF w] s' by simp
  show "\<forall>j. pf_type (pfs (db s) j) \<noteq> PFTYPE_ALLOCATED \<longrightarrow>
             pf_type (pfs (db s') j) = pf_type (pfs (db s) j)"
    using pgfree_walk_type [OF w] s' by simp
qed

text \<open>
  Claim C9. Every entry of the root table \<open>kmem_init\<close> builds is 0 or carries SYSTEM, and so
  is every entry of the root of an address space \<open>pagetable_create\<close> makes from it. The
  teardown of \<open>pagetable_destroy\<close> steps over an entry with SYSTEM at every level above the
  page tables; on an address space as created it frees nothing. Whatever the tables hold,
  \<open>pagetable_destroy\<close> leaves the memory as it is and a frame whose type is not Allocated,
  such as the Reserved frames of the kernel's page tables, keeps its type.
\<close>

theorem destroy_keeps_kernel_tables:
  "(kmem_init m0 pm = Some (Inr (mk, kpt)) \<longrightarrow> system_table mk (proot kpt)) \<and>
   (system_table (mem s) (proot kpt) \<longrightarrow> pagetable_create s kpt v sz = Inr (s1, pt) \<longrightarrow>
      system_table (mem s1) (proot pt)) \<and>
   (e < 512 \<longrightarrow> 1 < level \<longrightarrow> m (entry page (word_of_nat e)) AND PF_SYSTEM \<noteq> 0 \<longrightarrow>
      pgfree_walk m level page e d = pgfree_walk m level page (e + 1) d) \<and>
   (system_table (mem s1) (proot pt) \<longrightarrow> proot pt \<noteq> 0 \<longrightarrow>
      pagetable_destroy s1 pt = Inr (s1, \<lparr>proot = 0, vroot = 0, vnext = 0, vterm = 0\<rparr>)) \<and>
   (pagetable_destroy s2 pt2 = Inr (s3, pt3) \<longrightarrow>
      mem s3 = mem s2 \<and> npf (db s3) = npf (db s2) \<and>
      (\<forall>j. pf_type (pfs (db s2) j) \<noteq> PFTYPE_ALLOCATED \<longrightarrow>
           pf_type (pfs (db s3) j) = pf_type (pfs (db s2) j)))"
  using kmem_init_system_table [of m0 pm mk kpt]
    pagetable_create_system [of s kpt v sz s1 pt]
    pgfree_walk_skip [of e level m page d]
    pagetable_destroy_fresh [of s1 pt]
    pagetable_destroy_type [of s2 pt2 s3 pt3]
  by blast

text \<open>
  Witness for C9: the table \<open>kmem_init\<close> builds for a Reserved region \<open>[0, 4 MiB)\<close> and a
  Usable region of three pages, and an address space whose root is frame \<open>0x500\<close>.
  Destroying it changes nothing; frame \<open>0x20\<close>, the kernel's root table, is Reserved before
  and after.
\<close>

theorem destroy_keeps_kernel_tables_witness:
  "\<exists>mk kpt s1 pt.
     kmem_init (\<lambda>_. 0)
           \<lparr>regions = [\<lparr>addr = 0, rsize = 0x400000, rtype = 2, rflags = 0\<rparr>,
                      \<lparr>addr = 0x400000, rsize = 0x3000, rtype = 1, rflags = 0\<rparr>],
            last_usable = 0x403000\<rparr> = Some (Inr (mk, kpt)) \<and>
     pagetable_create
       \<lparr>mem = mk,
        db = \<lparr>pfs = (\<lambda>i. pf_zero)(0x500 := pf_zero\<lparr>pf_prev := PFN_INVALID, pf_next := PFN_INVALID,
                                         pf_type := PFTYPE_AVAILABLE\<rparr>),
               npf = 0x600, pfcount = 0x600, avail = 1, head = 0x500, tail = 0x500\<rparr>\<rparr>
       kpt 0x8000000000 0x400000 = Inr (s1, pt) \<and>
     proot pt = 0x500000 \<and>
     system_table mk (proot kpt) \<and> system_table (mem s1) (proot pt) \<and>
     pagetable_destroy s1 pt = Inr (s1, \<lparr>proot = 0, vroot = 0, vnext = 0, vterm = 0\<rparr>) \<and>
     pf_type (pfs (db s1) 0x20) = PFTYPE_RESERVED"
proof -
  obtain mk kpt where
    k: "kmem_init (\<lambda>_. 0)
           \<lparr>regions = [\<lparr>addr = 0, rsize = 0x400000, rtype = 2, rflags = 0\<rparr>,
                      \<lparr>addr = 0x400000, rsize = 0x3000, rtype = 1, rflags = 0\<rparr>],
            last_usable = 0x403000\<rparr> = Some (Inr (mk, kpt))"
    using kmem_init_example by blast
  define d where "d = \<lparr>pfs = (\<lambda>i. pf_zero)(0x500 := pf_zero\<lparr>pf_prev := PFN_INVALID, pf_next := PFN_INVALID,
                                         pf_type := PFTYPE_AVAILABLE\<rparr>),
               npf = 0x600, pfcount = 0x600, avail = 1, head = 0x500, tail = 0x500\<rparr>"
  obtain s1 pt where c: "pagetable_create \<lparr>mem = mk, db = d\<rparr> kpt 0x8000000000 0x400000 = Inr (s1, pt)"
    and r: "proot pt = 0x500000" and ty: "pf_type (pfs (db s1) 0x20) = PFTYPE_RESERVED"
    by (simp add: pagetable_create_def pgalloc_def pfalloc_def ebind_def d_def PAGE_SIZE_def
        PFN_INVALID_def PF_TO_PADDR_def pf_zero_def PFTYPE_RESERVED_def PFTYPE_ALLOCATED_def Let_def)
  note t = destroy_keeps_kernel_tables [where ?m0.0 = "\<lambda>_. 0" and mk = mk and kpt = kpt
      and s = "\<lparr>mem = mk, db = d\<rparr>" and v = "0x8000000000" and sz = "0x400000"
      and ?s1.0 = s1 and pt = pt and ?s2.0 = s1 and ?pt2.0 = pt and ?s3.0 = s1
      and ?pt3.0 = "\<lparr>proot = 0, vroot = 0, vnext = 0, vterm = 0\<rparr>"
      and pm = "\<lparr>regions = [\<lparr>addr = 0, rsize = 0x400000, rtype = 2, rflags = 0\<rparr>,
                      \<lparr>addr = 0x400000, rsize = 0x3000, rtype = 1, rflags = 0\<rparr>],
            last_usable = 0x403000\<rparr>"]
  have nz: "proot pt \<noteq> 0" using r by simp
  show ?thesis
    using t k c r ty nz unfolding d_def by (intro exI [of _ mk] exI [of _ kpt] exI [of _ s1] exI [of _ pt]) simp
qed

section \<open>Where the ACPI walker reaches fatal\<close>

lemma acpi_ensure_fatal: "acpi_ensure s t i = Inl e \<Longrightarrow> e = Pool_exhausted"
  by (auto simp: acpi_ensure_def alloc_page_acpi_def split: if_splits sum.splits)

lemma create_page_fatal: "create_page s a fl = Inl e \<Longrightarrow> e = Pool_exhausted"
  by (auto simp: create_page_def Let_def split: sum.splits dest: acpi_ensure_fatal)

lemma map_range_loop_fatal:
  assumes "map_range_loop s a tm fl = Some y"
  shows "\<forall>e. y = Inl e \<longrightarrow> e = Pool_exhausted"
  by (rule map_range_loop.raw_induct [OF _ assms])
    (auto split: if_splits sum.splits dest: create_page_fatal)

lemma map_table_fatal: "map_table s hdr = Some (Inl e) \<Longrightarrow> e = Pool_exhausted"
  by (auto simp: map_table_def map_range_def split: option.splits sum.splits
      dest!: map_range_loop_fatal)

lemma map_table_tabs: "map_table s hdr = Some (Inr s') \<Longrightarrow> tabs s' = tabs s"
  by (auto simp: map_table_def split: option.splits sum.splits)

lemma read_table_xsdt: "xsdt (read_table m a hdr) = xsdt a"
  by (simp add: read_table_def Let_def)

lemma read_sdt_loop_fatal:
  "read_sdt_loop w s t i n = Some (Inl e) \<Longrightarrow> e = Pool_exhausted"
proof (induction n arbitrary: s i)
  case 0
  then show ?case by simp
next
  case (Suc n)
  then show ?case
    by (auto simp: Let_def split: option.splits sum.splits dest: map_table_fatal)
qed

lemma read_sdt_loop_xsdt:
  "read_sdt_loop w s t i n = Some (Inr s') \<Longrightarrow> xsdt (tabs s') = xsdt (tabs s)"
proof (induction n arbitrary: s i)
  case 0
  then show ?case by simp
next
  case (Suc n)
  from Suc.prems obtain hdr s1 where m: "map_table s hdr = Some (Inr s1)"
    and r: "read_sdt_loop w (s1\<lparr>tabs := read_table (amem s1) (tabs s1) hdr\<rparr>) t (i + 1) n = Some (Inr s')"
    by (auto simp: Let_def split: option.splits sum.splits)
  have "xsdt (tabs s') = xsdt (tabs (s1\<lparr>tabs := read_table (amem s1) (tabs s1) hdr\<rparr>))"
    using Suc.IH [OF r] .
  then show ?case using map_table_tabs [OF m] by (simp add: read_table_xsdt)
qed

lemma ucast32_eq_0: "(ucast (w :: 32 word) :: 64 word) = 0 \<longleftrightarrow> w = 0"
proof -
  have "unat w < 2 ^ 32" using unsigned_less [of w, where 'a = nat] by simp
  then have "unat (ucast w :: 64 word) = unat w"
    by (simp add: unsigned_ucast_eq take_bit_nat_eq_self_iff)
  then show ?thesis by (metis unat_eq_0)
qed

lemma acpi_tables_no_rsdt:
  assumes "tabs s = \<lparr>version = 0, rsdp = p, rsdt = 0, xsdt = 0, fadt = 0, madt = 0, mcfg = 0\<rparr>"
  shows "acpi_tables s = Some (Inl No_RSDT) \<longleftrightarrow>
     \<not> (uint (read8 (amem s) (p + 15)) + 1 > 1 \<and> read64 (amem s) (p + 24) \<noteq> 0) \<and>
     read32 (amem s) (p + 16) = 0"
proof (cases "uint (read8 (amem s) (p + 15)) + 1 > 1 \<and> read64 (amem s) (p + 24) \<noteq> 0")
  case True
  let ?x = "read64 (amem s) (p + 24)"
  let ?s1 = "s\<lparr>tabs := (tabs s)\<lparr>version := uint (read8 (amem s) (p + 15)) + 1, xsdt := ?x\<rparr>\<rparr>"
  have "acpi_tables s \<noteq> Some (Inl No_RSDT)"
  proof (cases "map_table ?s1 ?x")
    case None
    then show ?thesis using True assms by (simp add: acpi_tables_def Let_def)
  next
    case (Some r)
    show ?thesis
    proof (cases r)
      case (Inl e)
      then have "e = Pool_exhausted" using Some map_table_fatal by blast
      then show ?thesis using True assms Some Inl by (simp add: acpi_tables_def Let_def)
    next
      case (Inr s2)
      have t2: "xsdt (tabs s2) = ?x" using map_table_tabs [of ?s1 ?x s2] Some Inr by simp
      show ?thesis
      proof (cases "read_xsdt s2")
        case None
        then show ?thesis using True assms Some Inr by (simp add: acpi_tables_def Let_def)
      next
        case (Some r3)
        show ?thesis
        proof (cases r3)
          case (Inl e)
          then have "e = Pool_exhausted"
            using Some read_sdt_loop_fatal by (auto simp: read_xsdt_def)
          then show ?thesis using True assms \<open>map_table ?s1 ?x = Some r\<close> Inr Some Inl
            by (simp add: acpi_tables_def Let_def)
        next
          case (Inr s3)
          have "xsdt (tabs s3) = ?x"
            using read_sdt_loop_xsdt Some Inr t2 by (auto simp: read_xsdt_def)
          then have "xsdt (tabs s3) \<noteq> 0" using True by simp
          then show ?thesis
            using True assms \<open>map_table ?s1 ?x = Some r\<close> \<open>r = Inr s2\<close> Some Inr
            by (simp add: acpi_tables_def Let_def split: option.splits)
        qed
      qed
    qed
  qed
  then show ?thesis using True by simp
next
  case False
  let ?r = "(ucast (read32 (amem s) (p + 16)) :: 64 word)"
  have z: "?r = 0 \<longleftrightarrow> read32 (amem s) (p + 16) = 0"
    by (rule ucast32_eq_0)
  have x0: "(if uint (read8 (amem s) (p + 15)) + 1 > 1 then read64 (amem s) (p + 24) else 0) = 0"
    using False by auto
  show ?thesis
  proof (cases "?r = 0")
    case True
    then show ?thesis using False assms z x0 by (simp add: acpi_tables_def Let_def)
  next
    case nz: False
    let ?s4 = "s\<lparr>tabs := (tabs s)\<lparr>version := uint (read8 (amem s) (p + 15)) + 1, xsdt := 0, rsdt := ?r\<rparr>\<rparr>"
    have "acpi_tables s \<noteq> Some (Inl No_RSDT)"
    proof (cases "map_table ?s4 ?r")
      case None
      then show ?thesis using False assms nz x0 by (simp add: acpi_tables_def Let_def)
    next
      case (Some r1)
      show ?thesis
      proof (cases r1)
        case (Inl e)
        then have "e = Pool_exhausted" using Some map_table_fatal by blast
        then show ?thesis using False assms nz x0 Some Inl by (simp add: acpi_tables_def Let_def)
      next
        case (Inr s5)
        show ?thesis
        proof (cases "read_rsdt s5")
          case None
          then show ?thesis using False assms nz x0 Some Inr by (simp add: acpi_tables_def Let_def)
        next
          case (Some r6)
          show ?thesis
          proof (cases r6)
            case (Inl e)
            then have "e = Pool_exhausted"
              using Some read_sdt_loop_fatal by (auto simp: read_rsdt_def)
            then show ?thesis
              using False assms nz x0 \<open>map_table ?s4 ?r = Some r1\<close> \<open>r1 = Inr s5\<close> Some Inl
              by (simp add: acpi_tables_def Let_def)
          next
            case (Inr s6)
            then show ?thesis
              using False assms nz x0 \<open>map_table ?s4 ?r = Some r1\<close> \<open>r1 = Inr s5\<close> Some
              by (simp add: acpi_tables_def Let_def split: option.splits)
          qed
        qed
      qed
    qed
    then show ?thesis using nz z by simp
  qed
qed

lemma acpi_tables_not_no_rsdp: "acpi_tables s \<noteq> Some (Inl No_RSDP)"
proof
  assume a: "acpi_tables s = Some (Inl No_RSDP)"
  have m: "\<And>s h. map_table s h \<noteq> Some (Inl No_RSDP)" using map_table_fatal by fastforce
  have r: "\<And>w s t i n. read_sdt_loop w s t i n \<noteq> Some (Inl No_RSDP)"
    using read_sdt_loop_fatal by fastforce
  show False using a m r
    by (auto simp: acpi_tables_def Let_def read_xsdt_def read_rsdt_def
        split: if_splits option.splits sum.splits)
qed

lemma acpi_init_no_rsdp: "acpi_init m pm = Some (Inl No_RSDP) \<longleftrightarrow> rsdp_scan m = Some 0"
  using acpi_tables_not_no_rsdp by (auto simp: acpi_init_def split: option.splits)

lemma acpi_init_no_rsdt:
  "acpi_init m pm = Some (Inl No_RSDT) \<longleftrightarrow>
     (\<exists>p. rsdp_scan m = Some p \<and> p \<noteq> 0 \<and>
          \<not> (uint (read8 m (p + 15)) + 1 > 1 \<and> read64 m (p + 24) \<noteq> 0) \<and>
          read32 m (p + 16) = 0)"
proof (cases "rsdp_scan m")
  case None
  then show ?thesis by (simp add: acpi_init_def)
next
  case (Some p)
  show ?thesis
  proof (cases "p = 0")
    case True
    then show ?thesis using Some by (simp add: acpi_init_def)
  next
    case False
    then show ?thesis using Some
      by (simp add: acpi_init_def acpi_tables_no_rsdt)
  qed
qed

lemma madt_find_loop_overshoot:
  assumes "ptr < tm" and "read8 m ptr \<noteq> ty" and "\<not> ptr + ucast (read8 m (ptr + 1)) < tm"
  shows "madt_find_loop m ty ptr tm = Some 0"
  using assms by (subst madt_find_loop.simps, subst madt_find_loop.simps) simp

text \<open>
  Claim C8, amended. \<open>acpi_init\<close> ends in \<open>fatal\<close> for a missing RSDP exactly when both scans
  (extended BIOS data area, then system ROM) come back with \<open>NULL\<close>; it ends in \<open>fatal\<close>
  for a missing RSDT exactly when an RSDP was found, there is no usable XSDT (revision 0,
  or a null XSDT pointer) and the RSDT pointer is null; the only other \<open>fatal\<close> of the file
  is that of \<open>alloc_page\<close>, taken exactly when the pool of the boot page table is used up, and
  this is the only error mapping a table can end in. A MADT iterator never ends in \<open>fatal\<close>:
  at an entry of another type whose length leads to or past the end of the table the
  search returns \<open>NULL\<close>. A header with an unrecognized signature leaves the table pointers
  as they are.
\<close>

theorem acpi_fatal_cases:
  "(acpi_init m pm = Some (Inl No_RSDP) \<longleftrightarrow> rsdp_scan m = Some 0) \<and>
   (acpi_init m pm = Some (Inl No_RSDT) \<longleftrightarrow>
      (\<exists>p. rsdp_scan m = Some p \<and> p \<noteq> 0 \<and>
           \<not> (uint (read8 m (p + 15)) + 1 > 1 \<and> read64 m (p + 24) \<noteq> 0) \<and>
           read32 m (p + 16) = 0)) \<and>
   ((\<exists>e. alloc_page_acpi (m, b) = Inl e) \<longleftrightarrow> next_page b = term_page b) \<and>
   (\<forall>e. map_table s hdr = Some (Inl e) \<longrightarrow> e = Pool_exhausted) \<and>
   (ptr < tm \<longrightarrow> read8 m ptr \<noteq> ty \<longrightarrow> \<not> ptr + ucast (read8 m (ptr + 1)) < tm \<longrightarrow>
      madt_find_loop m ty ptr tm = Some 0) \<and>
   (read32 m hdr \<noteq> SIGNATURE_FADT \<longrightarrow> read32 m hdr \<noteq> SIGNATURE_MADT \<longrightarrow>
      read32 m hdr \<noteq> SIGNATURE_MCFG \<longrightarrow> read_table m a hdr = a)"
proof -
  have 3: "(\<exists>e. alloc_page_acpi (m, b) = Inl e) \<longleftrightarrow> next_page b = term_page b"
    by (simp add: alloc_page_acpi_def)
  have 4: "\<forall>e. map_table s hdr = Some (Inl e) \<longrightarrow> e = Pool_exhausted"
    using map_table_fatal by blast
  have 6: "read32 m hdr \<noteq> SIGNATURE_FADT \<longrightarrow> read32 m hdr \<noteq> SIGNATURE_MADT \<longrightarrow>
      read32 m hdr \<noteq> SIGNATURE_MCFG \<longrightarrow> read_table m a hdr = a"
    by (simp add: read_table_def Let_def)
  show ?thesis
    using acpi_init_no_rsdp [of m pm] acpi_init_no_rsdt [of m pm] 3 4 6
      madt_find_loop_overshoot [of ptr tm m ty]
    by blast
qed

text \<open>
  Witness for C8: an RSDP of revision 0 with a null RSDT pointer at the start of the
  extended BIOS data area; the same bytes read as a MADT entry of type \<open>0x52\<close> and length
  \<open>0x53\<close> in a table that ends at \<open>0x9F808\<close>; a header whose signature is 0.
\<close>

theorem acpi_fatal_cases_witness:
  "acpi_init ((\<lambda>_. 0)(0x9F800 := 0x2052545020445352)) \<lparr>regions = [], last_usable = 0\<rparr>
     = Some (Inl No_RSDT) \<and>
   madt_find_loop ((\<lambda>_. 0)(0x9F800 := 0x2052545020445352)) 1 0x9F800 0x9F808 = Some 0 \<and>
   read_table ((\<lambda>_. 0)(0x9F800 := 0x2052545020445352))
     \<lparr>version = 0, rsdp = 0x9F800, rsdt = 0, xsdt = 0, fadt = 0, madt = 0, mcfg = 0\<rparr> 0x2000
     = \<lparr>version = 0, rsdp = 0x9F800, rsdt = 0, xsdt = 0, fadt = 0, madt = 0, mcfg = 0\<rparr>"
proof -
  let ?m = "(\<lambda>_. 0 :: 64 word)(0x9F800 := 0x2052545020445352)"
  have r: "rsdp_scan ?m = Some 0x9F800"
    by (simp add: rsdp_scan_def find_rsdp_def find_rsdp_loop.simps KMEM_EXTENDED_BIOS_def
        KMEM_EXTENDED_BIOS_SIZE_def read64_def read8_def SIGNATURE_RSDP_def)
  have 1: "read8 ?m (0x9F800 + 15) = 0" "read32 ?m (0x9F800 + 16) = 0"
    by (simp_all add: read8_def read32_def)
  have 2: "read8 ?m 0x9F800 \<noteq> 1" "read8 ?m (0x9F800 + 1) = 0x53"
    by (simp_all add: read8_def)
  have 3: "read32 ?m 0x2000 = 0" by (simp add: read32_def read8_def)
  show ?thesis
    using acpi_fatal_cases [of ?m "\<lparr>regions = [], last_usable = 0\<rparr>"
        "\<lparr>root = 0, next_page = 0, term_page = 0\<rparr>" undefined "0x2000" "0x9F800" "0x9F808" 1
        "\<lparr>version = 0, rsdp = 0x9F800, rsdt = 0, xsdt = 0, fadt = 0, madt = 0, mcfg = 0\<rparr>"]
      r 1 2 3
    by (simp add: SIGNATURE_FADT_def SIGNATURE_MADT_def SIGNATURE_MCFG_def)
qed

text \<open>
  Counterexample for C8 as stated. A MADT of 52 bytes at \<open>0x1000\<close> whose only entry has the
  unknown type \<open>0x55\<close> and the length \<open>0x40\<close>, which overshoots the table: the iterator
  returns \<open>NULL\<close>, there is no \<open>fatal\<close>. And a further \<open>fatal\<close>: with the upper three levels
  of the boot page table as the loader leaves them, an RSDP of revision 2 whose XSDT at \<open>0x8000000000\<close> lists four tables at
  \<open>0x10000000000\<close>, \<open>0x18000000000\<close>, \<open>0x20000000000\<close> and \<open>0x28000000000\<close>, mapping them uses
  up the twelve pages of the pool, and \<open>acpi_init\<close> ends in the \<open>fatal\<close> of \<open>alloc_page\<close>.
\<close>

theorem acpi_fatal_cases_counterexample:
  "acpi_next_io_apic ((\<lambda>_. 0)(0x1000 := 0x3443495041, 0x1028 := 0x405500000000))
     \<lparr>version = 1, rsdp = 0x9F800, rsdt = 0x2000, xsdt = 0, fadt = 0, madt = 0x1000, mcfg = 0\<rparr> 0
     = Some 0 \<and>
   acpi_init ((\<lambda>_. 0)(0x10000 := 0x11003, 0x11000 := 0x12003, 0x12000 := 0x13003,
      0x9F800 := 0x2052545020445352, 0x9F808 := 0x0200000000000000, 0x9F818 := 0x8000000000,
      0x8000000000 := 0x4400000000, 0x8000000028 := 0x100, 0x8000000030 := 0x180,
      0x8000000038 := 0x200, 0x8000000040 := 0x280)) \<lparr>regions = [], last_usable = 0\<rparr>
     = Some (Inl Pool_exhausted)"
  by code_simp

subsection \<open>The walker leaves the mapped entries alone\<close>

lemma al_take: "(p :: 64 word) AND 0xFFF = take_bit 12 p"
  using take_bit_eq_mask [of 12 p] by (simp add: mask_eq_exp_minus_1)

lemma al_unat: "(p :: 64 word) AND 0xFFF = 0 \<longleftrightarrow> unat p mod 4096 = 0"
proof -
  have "unat (take_bit 12 p) = unat p mod 4096"
    by (simp add: unsigned_take_bit_eq take_bit_eq_mod unat_mod_distrib)
  then show ?thesis unfolding al_take by (metis unat_eq_0)
qed

lemma pgptr_or3:
  assumes a: "(p :: 64 word) AND 0xFFF = 0"
  shows "(p OR 1 OR 2) AND NOT 0x3ff = p"
proof -
  have t: "take_bit 12 p = 0" using a by (simp add: al_take)
  have p: "p = push_bit 12 (drop_bit 12 p)"
    using bits_ident [of 12 p] t by simp
  have m: "(0x3ff :: 64 word) = mask 10" "(1 :: 64 word) OR 2 = mask 2"
    by (simp_all add: mask_eq_exp_minus_1)
  have "(push_bit 12 (drop_bit 12 p) OR mask 2) AND NOT (mask 10) = push_bit 12 (drop_bit 12 p)"
    by (rule bit_word_eqI) (auto simp: bit_simps)
  then show ?thesis unfolding or.assoc m using p by simp
qed

lemma idx_lt: "8 * ((x :: 64 word) AND 0x1ff) < 0x1000"
proof -
  have "x AND 0x1ff \<le> 0x1ff" by (rule word_and_le1)
  then have "unat (x AND 0x1ff) \<le> 511" by (simp add: word_le_nat_alt)
  then show ?thesis by (simp add: word_less_nat_alt unat_word_ariths)
qed

lemma pool_next:
  assumes "(n :: 64 word) \<le> t" "n \<noteq> t" "n AND 0xFFF = 0" "t AND 0xFFF = 0"
  shows "unat n + 4096 \<le> unat t" "(n + 0x1000) AND 0xFFF = 0" "n + 0x1000 \<le> t" "n \<le> n + 0x1000"
proof -
  have d: "unat n mod 4096 = 0" "unat t mod 4096 = 0" using assms al_unat by auto
  have "unat n < unat t" using assms(1,2) by (simp add: word_le_nat_alt word_unat_eq_iff)
  moreover obtain k j where "unat n = 4096 * k" "unat t = 4096 * j"
    using d by (auto elim!: dvdE simp: mod_eq_0_iff_dvd)
  ultimately show 1: "unat n + 4096 \<le> unat t" by auto
  have lt: "unat t < 2 ^ 64" using unsigned_less [of t, where 'a = nat] by simp
  have u: "unat (n + 0x1000) = unat n + 4096" using 1 lt by (simp add: unat_word_ariths)
  show "(n + 0x1000) AND 0xFFF = 0" using u d by (simp add: al_unat)
  show "n + 0x1000 \<le> t" using u 1 by (simp add: word_le_nat_alt)
  show "n \<le> n + 0x1000" using u by (simp add: word_le_nat_alt)
qed

lemma in_page:
  assumes "unat (n :: 64 word) + 4096 \<le> unat (t :: 64 word)"
  shows "c - n < 0x1000 \<longleftrightarrow> n \<le> c \<and> c < n + 0x1000"
proof -
  have lt: "unat t < 2 ^ 64" using unsigned_less [of t, where 'a = nat] by simp
  have u: "unat (n + 0x1000) = unat n + 4096" using assms lt by (simp add: unat_word_ariths)
  have lc: "unat c < 2 ^ 64" using unsigned_less [of c, where 'a = nat] by simp
  show ?thesis
  proof (cases "n \<le> c")
    case True
    then have "unat (c - n) = unat c - unat n" by (simp add: unat_sub)
    moreover have "unat n \<le> unat c" using True by (simp add: word_le_nat_alt)
    ultimately show ?thesis using u True by (simp add: word_less_nat_alt) arith
  next
    case False
    then have "unat c < unat n" by (simp add: word_le_nat_alt)
    then have "unat (c - n) = 2 ^ 64 + unat c - unat n"
      using lc lt assms by (simp add: unat_sub_if') 
    then show ?thesis using False assms lt by (simp add: word_less_nat_alt)
  qed
qed

lemma entry_in_page: "entry t (x AND 0x1ff) - t < 0x1000"
  by (simp add: entry_def idx_lt)

lemma frame_step_refl: "pool_ok (snd s) \<Longrightarrow> frame_step s s"
  by (simp add: frame_step_def)

lemma frame_step_trans:
  assumes "frame_step s s1" and "frame_step s1 s2"
  shows "frame_step s s2"
proof -
  have p: "\<not> in_pool (snd s1) c" if "\<not> in_pool (snd s) c" for c
    using assms(1) that by (auto simp: frame_step_def in_pool_def)
  have 1: "pool_ok (snd s2)" using assms(2) by (simp add: frame_step_def)
  have 2: "root (snd s2) = root (snd s)" "term_page (snd s2) = term_page (snd s)"
    using assms by (simp_all add: frame_step_def)
  have 3: "next_page (snd s) \<le> next_page (snd s2)"
    using assms by (auto simp: frame_step_def)
  have 4: "fst s2 c = fst s c" if n: "\<not> in_pool (snd s) c" and z: "fst s c \<noteq> 0" for c
  proof -
    have a: "fst s1 c = fst s c" using assms(1) n z by (simp add: frame_step_def)
    have "fst s2 c = fst s1 c" using assms(2) p [OF n] z a by (simp add: frame_step_def)
    then show ?thesis using a by simp
  qed
  show ?thesis unfolding frame_step_def using 1 2 3 4 by blast
qed

lemma ensure_keep: "fst s (entry t i) \<noteq> 0 \<Longrightarrow> acpi_ensure s t i = Inr s"
  by (simp add: acpi_ensure_def)

lemma ensure_alloc:
  assumes "fst s (entry t i) = 0" and "acpi_ensure s t i = Inr s'"
  shows "next_page (snd s) \<noteq> term_page (snd s)"
    and "s' = ((memzero (fst s) (next_page (snd s)) 0x1000)
                 (entry t i := next_page (snd s) OR PF_PRESENT OR PF_RW),
               (snd s)\<lparr>next_page := next_page (snd s) + 0x1000\<rparr>)"
proof -
  have e: "(case alloc_page_acpi s of Inl e \<Rightarrow> Inl e
            | Inr (v, m', b') \<Rightarrow> Inr (m'(entry t i := v), b')) = Inr s'"
    using assms by (simp add: acpi_ensure_def)
  show n: "next_page (snd s) \<noteq> term_page (snd s)"
  proof
    assume "next_page (snd s) = term_page (snd s)"
    then have "alloc_page_acpi s = Inl Pool_exhausted" by (simp add: alloc_page_acpi_def)
    then show False using e by simp
  qed
  have "alloc_page_acpi s = Inr (next_page (snd s) OR PF_PRESENT OR PF_RW,
                memzero (fst s) (next_page (snd s)) PAGE_SIZE,
                (snd s)\<lparr>next_page := next_page (snd s) + PAGE_SIZE\<rparr>)"
    using n by (simp add: alloc_page_acpi_def)
  then show "s' = ((memzero (fst s) (next_page (snd s)) 0x1000)
                 (entry t i := next_page (snd s) OR PF_PRESENT OR PF_RW),
               (snd s)\<lparr>next_page := next_page (snd s) + 0x1000\<rparr>)"
    using e by (simp add: PAGE_SIZE_def)
qed

lemma memzero_outside:
  assumes "unat n + 4096 \<le> unat t" and "\<not> (n \<le> c \<and> c < t)"
  shows "memzero m n 0x1000 c = m c"
proof -
  have lt: "unat t < 2 ^ 64" using unsigned_less [of t, where 'a = nat] by simp
  have u: "unat (n + 0x1000) = unat n + 4096" using assms(1) lt by (simp add: unat_word_ariths)
  have "\<not> (n \<le> c \<and> c < n + 0x1000)"
    using assms u by (auto simp: word_le_nat_alt word_less_nat_alt)
  then have "\<not> c - n < 0x1000" using in_page [OF assms(1), of c] by blast
  then show ?thesis by (simp add: memzero_def)
qed

lemma ensure_step:
  assumes ok: "pool_ok (snd s)" and e: "acpi_ensure s t i = Inr s'"
  shows "frame_step s s'"
proof (cases "fst s (entry t i) = 0")
  case False
  then show ?thesis using e ok by (simp add: ensure_keep frame_step_refl)
next
  case True
  note a = ensure_alloc [OF True e]
  let ?n = "next_page (snd s)" and ?t = "term_page (snd s)"
  note pn = pool_next [of ?n ?t]
  have h: "?n \<le> ?t" "?n AND 0xFFF = 0" "?t AND 0xFFF = 0" using ok by (auto simp: pool_ok_def)
  have 1: "pool_ok (snd s')" using a(2) pn(2,3) h a(1) by (simp add: pool_ok_def)
  have 2: "root (snd s') = root (snd s)" "term_page (snd s') = term_page (snd s)"
    using a(2) by simp_all
  have 3: "next_page (snd s) \<le> next_page (snd s')" using a(2) pn(4) h a(1) by simp
  have 4: "fst s' c = fst s c" if "\<not> in_pool (snd s) c" and "fst s c \<noteq> 0" for c
  proof -
    have "c \<noteq> entry t i" using that(2) True by auto
    moreover have "memzero (fst s) ?n 0x1000 c = fst s c"
      using memzero_outside [of ?n ?t c] pn(1) h a(1) that(1) by (simp add: in_pool_def)
    ultimately show ?thesis using a(2) by simp
  qed
  show ?thesis unfolding frame_step_def using 1 2 3 4 by blast
qed

lemma ensure_fresh_alloc:
  assumes ok: "pool_ok (snd s)" and nb: "next_page b \<le> next_page (snd s)"
    and tb: "term_page (snd s) = term_page b"
    and z: "fst s (entry t i) = 0" and e: "acpi_ensure s t i = Inr s'"
  shows "fresh_table b s' (PGPTR (fst s' (entry t i)))"
proof -
  note a = ensure_alloc [OF z e]
  let ?n = "next_page (snd s)" and ?t = "term_page (snd s)"
  have h: "?n \<le> ?t" "?n AND 0xFFF = 0" "?t AND 0xFFF = 0" using ok by (auto simp: pool_ok_def)
  note pn = pool_next [OF h(1) a(1) h(2,3)]
  have v: "fst s' (entry t i) = ?n OR PF_PRESENT OR PF_RW" using a(2) by simp
  have g: "PGPTR (fst s' (entry t i)) = ?n"
    unfolding v using pgptr_or3 [OF h(2)]
    by (simp add: PGPTR_def PGMASK_OFFSET_def PF_PRESENT_def PF_RW_def)
  have c: "in_pool b c \<and> (fst s' c = 0 \<or> fst s' c = ?n OR PF_PRESENT OR PF_RW)"
    if "c - ?n < 0x1000" for c
  proof -
    have r: "?n \<le> c" "c < ?n + 0x1000" using in_page [OF pn(1), of c] that by auto
    have "in_pool b c" using r nb tb pn(3) by (auto simp: in_pool_def)
    moreover have "fst s' c = 0 \<or> fst s' c = ?n OR PF_PRESENT OR PF_RW"
      using a(2) that by (simp add: memzero_def)
    ultimately show ?thesis by simp
  qed
  show ?thesis unfolding fresh_table_def g using h(2) c by blast
qed

lemma ensure_fresh:
  assumes ok: "pool_ok (snd s)" and nb: "next_page b \<le> next_page (snd s)"
    and tb: "term_page (snd s) = term_page b"
    and f: "fresh_table b s t" and e: "acpi_ensure s t (x AND 0x1ff) = Inr s'"
  shows "fresh_table b s' (PGPTR (fst s' (entry t (x AND 0x1ff))))"
proof (cases "fst s (entry t (x AND 0x1ff)) = 0")
  case True
  then show ?thesis using ensure_fresh_alloc [OF ok nb tb _ e] by simp
next
  case False
  have s: "s' = s" using e False by (simp add: ensure_keep)
  have al: "t AND 0xFFF = 0" using f by (simp add: fresh_table_def)
  have "fst s (entry t (x AND 0x1ff)) = t OR PF_PRESENT OR PF_RW"
    using f False entry_in_page [of t x] by (auto simp: fresh_table_def)
  then have "PGPTR (fst s (entry t (x AND 0x1ff))) = t"
    using pgptr_or3 [OF al] by (simp add: PGPTR_def PGMASK_OFFSET_def PF_PRESENT_def PF_RW_def)
  then show ?thesis using f s by simp
qed

lemma fresh_leaf: "fresh_table b s t \<Longrightarrow> in_pool b (entry t (x AND 0x1ff))"
  using entry_in_page [of t x] by (auto simp: fresh_table_def)

lemma create_page_frame:
  assumes ok: "pool_ok (snd s)" and nm: "\<not> is_mapped (fst s) (snd s) a"
    and c: "create_page s a fl = Inr s'"
  shows "frame_step s s'"
proof -
  obtain s1 where 1: "acpi_ensure s (root (snd s)) (PML4E a) = Inr s1"
    using c by (cases "acpi_ensure s (root (snd s)) (PML4E a)") (auto simp: create_page_def)
  define t1 where "t1 = PGPTR (fst s1 (entry (root (snd s1)) (PML4E a)))"
  obtain s2 where 2: "acpi_ensure s1 t1 (PDPTE a) = Inr s2"
    using c 1 by (cases "acpi_ensure s1 t1 (PDPTE a)") (auto simp: create_page_def Let_def t1_def)
  define t2 where "t2 = PGPTR (fst s2 (entry t1 (PDPTE a)))"
  obtain s3 where 3: "acpi_ensure s2 t2 (PDE a) = Inr s3"
    using c 1 2 by (cases "acpi_ensure s2 t2 (PDE a)")
      (auto simp: create_page_def Let_def t1_def t2_def)
  define t3 where "t3 = PGPTR (fst s3 (entry t2 (PDE a)))"
  have s': "s' = ((fst s3)(entry t3 (PTE a) := a OR fl), snd s3)"
    using c 1 2 3 by (simp add: create_page_def Let_def t1_def t2_def t3_def)
  note f1 = ensure_step [OF ok 1]
  have ok1: "pool_ok (snd s1)" using f1 by (simp add: frame_step_def)
  note f2 = ensure_step [OF ok1 2]
  have ok2: "pool_ok (snd s2)" using f2 by (simp add: frame_step_def)
  note f3 = ensure_step [OF ok2 3]
  note f12 = frame_step_trans [OF f1 f2]
  note f = frame_step_trans [OF f12 f3]
  have b1: "next_page (snd s) \<le> next_page (snd s1)" "term_page (snd s1) = term_page (snd s)"
    "root (snd s1) = root (snd s)"
    using f1 by (simp_all add: frame_step_def)
  have b2: "next_page (snd s) \<le> next_page (snd s2)" "term_page (snd s2) = term_page (snd s)"
    using f12 by (simp_all add: frame_step_def)
  have i4: "PML4E a = drop_bit 39 a AND 0x1ff" and i3: "PDPTE a = drop_bit 30 a AND 0x1ff"
    and i2: "PDE a = drop_bit 21 a AND 0x1ff" and i1: "PTE a = drop_bit 12 a AND 0x1ff"
    by (simp_all add: PML4E_def PDPTE_def PDE_def PTE_def PGMASK_ENTRY_def)
  have leaf: "in_pool (snd s) (entry t3 (PTE a)) \<or> fst s (entry t3 (PTE a)) = 0"
  proof (cases "fst s (entry (root (snd s)) (PML4E a)) = 0")
    case True
    have "fresh_table (snd s) s1 t1"
      unfolding t1_def b1(3) using ensure_fresh_alloc [OF ok _ _ True 1] by simp
    then have "fresh_table (snd s) s2 t2"
      unfolding t2_def i3 using ensure_fresh [OF ok1 b1(1,2) _ 2 [unfolded i3]] by simp
    then have "fresh_table (snd s) s3 t3"
      unfolding t3_def i2 using ensure_fresh [OF ok2 b2(1,2) _ 3 [unfolded i2]] by simp
    then show ?thesis unfolding i1 using fresh_leaf by blast
  next
    case n4: False
    then have e1: "s1 = s" using 1 by (simp add: ensure_keep)
    show ?thesis
    proof (cases "fst s (entry t1 (PDPTE a)) = 0")
      case True
      have "fresh_table (snd s) s2 t2"
        unfolding t2_def using ensure_fresh_alloc [OF ok _ _ True 2 [unfolded e1]] by simp
      then have "fresh_table (snd s) s3 t3"
        unfolding t3_def i2 using ensure_fresh [OF ok2 b2(1,2) _ 3 [unfolded i2]] by simp
      then show ?thesis unfolding i1 using fresh_leaf by blast
    next
      case n3: False
      then have e2: "s2 = s" using 2 e1 by (simp add: ensure_keep)
      show ?thesis
      proof (cases "fst s (entry t2 (PDE a)) = 0")
        case True
        have "fresh_table (snd s) s3 t3"
          unfolding t3_def using ensure_fresh_alloc [OF ok _ _ True 3 [unfolded e2]] by simp
        then show ?thesis unfolding i1 using fresh_leaf by blast
      next
        case n2: False
        then have e3: "s3 = s" using 3 e2 by (simp add: ensure_keep)
        have "fst s (entry t3 (PTE a)) = 0"
          using nm n4 n3 n2 unfolding is_mapped_def t3_def t2_def t1_def e1 e2 e3
          by (simp add: Let_def split: if_splits)
        then show ?thesis by simp
      qed
    qed
  qed
  have 4: "fst s' c = fst s c" if n: "\<not> in_pool (snd s) c" and z: "fst s c \<noteq> 0" for c
  proof -
    have "c \<noteq> entry t3 (PTE a)" using leaf n z by auto
    then have "fst s' c = fst s3 c" using s' by simp
    then show ?thesis using f n z by (simp add: frame_step_def)
  qed
  have "pool_ok (snd s')" "root (snd s') = root (snd s)" "term_page (snd s') = term_page (snd s)"
    "next_page (snd s) \<le> next_page (snd s')"
    using f s' by (simp_all add: frame_step_def)
  then show ?thesis unfolding frame_step_def using 4 by blast
qed

lemma map_range_loop_frame:
  assumes "map_range_loop s a tm fl = Some y"
  shows "\<forall>s'. y = Inr s' \<longrightarrow> pool_ok (snd s) \<longrightarrow> frame_step s s'"
proof (rule map_range_loop.raw_induct [OF _ assms])
  fix f :: "memory \<times> btable \<Rightarrow> 64 word \<Rightarrow> 64 word \<Rightarrow> 64 word \<Rightarrow> (acpi_fatal + memory \<times> btable) option"
    and s a tm fl y
  assume IH: "\<And>s a tm fl y. f s a tm fl = Some y \<Longrightarrow>
      \<forall>s'. y = Inr s' \<longrightarrow> pool_ok (snd s) \<longrightarrow> frame_step s s'"
  assume b: "(if a < tm then
        (if \<not> is_mapped (fst s) (snd s) a then
           (case create_page s a fl of
              Inl e \<Rightarrow> Some (Inl e)
            | Inr s' \<Rightarrow> f s' (a + PAGE_SIZE) tm fl)
         else f s (a + PAGE_SIZE) tm fl)
      else Some (Inr s)) = Some y"
  show "\<forall>s'. y = Inr s' \<longrightarrow> pool_ok (snd s) \<longrightarrow> frame_step s s'"
  proof (intro allI impI)
    fix s'
    assume y: "y = Inr s'" and ok: "pool_ok (snd s)"
    show "frame_step s s'"
    proof (cases "a < tm")
      case False
      then show ?thesis using b y ok by (simp add: frame_step_refl)
    next
      case True
      show ?thesis
      proof (cases "is_mapped (fst s) (snd s) a")
        case m: True
        then have "f s (a + PAGE_SIZE) tm fl = Some y" using b True by simp
        from IH [OF this] y ok show ?thesis by simp
      next
        case m: False
        show ?thesis
        proof (cases "create_page s a fl")
          case (Inl e)
          then show ?thesis using b True m y by simp
        next
          case (Inr s1)
          then have r: "f s1 (a + PAGE_SIZE) tm fl = Some y" using b True m by simp
          note c = create_page_frame [OF ok m Inr]
          then have "pool_ok (snd s1)" by (simp add: frame_step_def)
          with IH [OF r] y have "frame_step s1 s'" by simp
          with c show ?thesis by (rule frame_step_trans)
        qed
      qed
    qed
  qed
qed

lemma map_range_frame:
  assumes "map_range s a sz fl = Some (Inr s')" and "pool_ok (snd s)"
  shows "frame_step s s'"
  using map_range_loop_frame [OF assms(1) [unfolded map_range_def]] assms(2) by simp

lemma map_table_frame:
  assumes m: "map_table s hdr = Some (Inr s')" and ok: "pool_ok (bt s)"
  shows "frame_step (amem s, bt s) (amem s', bt s')"
proof -
  obtain s1 where 1: "map_range (amem s, bt s) hdr 36 (PF_PRESENT OR PF_RW) = Some (Inr s1)"
    using m by (auto simp: map_table_def split: option.splits sum.splits)
  obtain s2 where 2: "map_range s1 hdr (ucast (read32 (fst s1) (hdr + 4))) (PF_PRESENT OR PF_RW)
       = Some (Inr s2)"
    using m 1 by (auto simp: map_table_def split: option.splits sum.splits)
  have s': "amem s' = fst s2" "bt s' = snd s2"
    using m 1 2 by (auto simp: map_table_def split: option.splits sum.splits)
  have f1: "frame_step (amem s, bt s) s1" using map_range_frame [OF 1] ok by simp
  then have "pool_ok (snd s1)" by (simp add: frame_step_def)
  then have "frame_step s1 s2" using map_range_frame [OF 2] by simp
  with f1 have "frame_step (amem s, bt s) s2" by (rule frame_step_trans)
  then show ?thesis using s' by simp
qed

lemma read_sdt_loop_frame:
  assumes "read_sdt_loop w s t i n = Some (Inr s')" and "pool_ok (bt s)"
  shows "frame_step (amem s, bt s) (amem s', bt s')"
  using assms
proof (induction n arbitrary: s i)
  case 0
  then show ?case by (simp add: frame_step_refl)
next
  case (Suc n)
  define hdr where "hdr = (if w = 8 then read64 (amem s) (t + 36 + 8 * i)
                 else ucast (read32 (amem s) (t + 36 + 4 * i)))"
  obtain s1 where 1: "map_table s hdr = Some (Inr s1)"
    and 2: "read_sdt_loop w (s1\<lparr>tabs := read_table (amem s1) (tabs s1) hdr\<rparr>) t (i + 1) n = Some (Inr s')"
    using Suc.prems(1) by (auto simp: Let_def hdr_def split: option.splits sum.splits)
  note f1 = map_table_frame [OF 1 Suc.prems(2)]
  then have "pool_ok (bt s1)" by (simp add: frame_step_def)
  then have "frame_step (amem s1, bt s1) (amem s', bt s')"
    using Suc.IH [OF 2] by simp
  with f1 show ?case by (rule frame_step_trans)
qed

lemma io_apic_loop_mem:
  assumes "io_apic_loop s io = Some y"
  shows "amem y = amem s \<and> bt y = bt s"
proof (rule io_apic_loop.raw_induct [OF _ assms])
  fix f :: "acpi_state \<Rightarrow> 64 word \<Rightarrow> acpi_state option" and s io y
  assume IH: "\<And>s io y. f s io = Some y \<Longrightarrow> amem y = amem s \<and> bt y = bt s"
  assume b: "(case acpi_next_io_apic (amem s) (tabs s) io of
        None \<Rightarrow> None
      | Some io' \<Rightarrow>
          if io' = 0 then Some s
          else (case pmap_add False (ucast (read32 (amem s) (io' + 4) AND NOT 0xFFF)) PAGE_SIZE
                       PMEMTYPE_UNCACHED (apm s) of
                  None \<Rightarrow> None
                | Some pm' \<Rightarrow> f (s\<lparr>apm := pm'\<rparr>) io')) = Some y"
  show "amem y = amem s \<and> bt y = bt s"
  proof (cases "acpi_next_io_apic (amem s) (tabs s) io")
    case None
    then show ?thesis using b by simp
  next
    case (Some io')
    show ?thesis
    proof (cases "io' = 0")
      case True
      then show ?thesis using b Some by simp
    next
      case False
      then obtain pm' where "f (s\<lparr>apm := pm'\<rparr>) io' = Some y"
        using b Some by (auto split: option.splits)
      from IH [OF this] show ?thesis by simp
    qed
  qed
qed

lemma map_then_frame:
  assumes "(case map_table s h of None \<Rightarrow> None | Some (Inl e) \<Rightarrow> Some (Inl e)
            | Some (Inr s2) \<Rightarrow> g s2) = Some (Inr s3)"
    and "pool_ok (bt s)"
    and "\<And>s2. pool_ok (bt s2) \<Longrightarrow> g s2 = Some (Inr s3) \<Longrightarrow>
           frame_step (amem s2, bt s2) (amem s3, bt s3)"
  shows "frame_step (amem s, bt s) (amem s3, bt s3)"
proof -
  obtain s2 where 1: "map_table s h = Some (Inr s2)" and 2: "g s2 = Some (Inr s3)"
    using assms(1) by (auto split: option.splits sum.splits)
  note f1 = map_table_frame [OF 1 assms(2)]
  then have "pool_ok (bt s2)" by (simp add: frame_step_def)
  from f1 assms(3) [OF this 2] show ?thesis by (rule frame_step_trans)
qed

lemma read_xsdt_frame:
  "pool_ok (bt s) \<Longrightarrow> read_xsdt s = Some (Inr s') \<Longrightarrow> frame_step (amem s, bt s) (amem s', bt s')"
  unfolding read_xsdt_def by (rule read_sdt_loop_frame)

lemma read_rsdt_frame:
  "pool_ok (bt s) \<Longrightarrow> read_rsdt s = Some (Inr s') \<Longrightarrow> frame_step (amem s, bt s) (amem s', bt s')"
  unfolding read_rsdt_def by (rule read_sdt_loop_frame)

lemma acpi_tables_frame:
  assumes a: "acpi_tables s = Some (Inr s')" and ok: "pool_ok (bt s)"
  shows "frame_step (amem s, bt s) (amem s', bt s')"
proof -
  define p where "p = rsdp (tabs s)"
  define s0 where "s0 = s\<lparr>tabs := (tabs s)\<lparr>version := uint (read8 (amem s) (p + 15)) + 1\<rparr>\<rparr>"
  define x where "x = (if version (tabs s0) > 1 then read64 (amem s0) (p + 24) else xsdt (tabs s0))"
  define s1 where "s1 = s0\<lparr>tabs := (tabs s0)\<lparr>xsdt := x\<rparr>\<rparr>"
  define r1 where "r1 = (if version (tabs s0) > 1 \<and> x \<noteq> 0 then
                  (case map_table s1 x of
                     None \<Rightarrow> None
                   | Some (Inl e) \<Rightarrow> Some (Inl e)
                   | Some (Inr s2) \<Rightarrow> read_xsdt s2)
                else Some (Inr s1))"
  define r2 where "r2 = (\<lambda>s3. if xsdt (tabs s3) = 0 then
                         (let r = (ucast (read32 (amem s3) (p + 16)) :: 64 word);
                              s4 = s3\<lparr>tabs := (tabs s3)\<lparr>rsdt := r\<rparr>\<rparr>
                          in if r = 0 then Some (Inl No_RSDT)
                             else (case map_table s4 r of
                                     None \<Rightarrow> None
                                   | Some (Inl e) \<Rightarrow> Some (Inl e)
                                   | Some (Inr s5) \<Rightarrow> read_rsdt s5))
                       else Some (Inr s3))"
  define r3 :: "acpi_state \<Rightarrow> (acpi_fatal + acpi_state) option" where "r3 = (\<lambda>s6. case (if madt (tabs s6) \<noteq> 0
                           then pmap_add False
                                  (ucast (read32 (amem s6) (madt (tabs s6) + 36) AND NOT 0xFFF))
                                  PAGE_SIZE PMEMTYPE_UNCACHED (apm s6)
                           else Some (apm s6)) of
                       None \<Rightarrow> None
                     | Some pm' \<Rightarrow>
                         (case io_apic_loop (s6\<lparr>apm := pm'\<rparr>) 0 of
                            None \<Rightarrow> None
                          | Some s7 \<Rightarrow> Some (Inr s7)))"
  have u: "acpi_tables s =
     (case r1 of None \<Rightarrow> None | Some (Inl e) \<Rightarrow> Some (Inl e)
      | Some (Inr s3) \<Rightarrow>
          (case r2 s3 of None \<Rightarrow> None | Some (Inl e) \<Rightarrow> Some (Inl e)
           | Some (Inr s6) \<Rightarrow> r3 s6))"
    unfolding acpi_tables_def r1_def r2_def r3_def s1_def x_def s0_def p_def Let_def ..
  obtain s3 where 1: "r1 = Some (Inr s3)"
    using a unfolding u by (auto split: option.splits sum.splits)
  obtain s6 where 2: "r2 s3 = Some (Inr s6)"
    using a 1 unfolding u by (auto split: option.splits sum.splits)
  have 3: "r3 s6 = Some (Inr s')" using a 1 2 unfolding u by simp
  have e1: "amem s1 = amem s" "bt s1 = bt s" by (simp_all add: s1_def s0_def)
  have f1: "frame_step (amem s, bt s) (amem s3, bt s3)"
  proof (cases "version (tabs s0) > 1 \<and> x \<noteq> 0")
    case True
    then have "(case map_table s1 x of None \<Rightarrow> None | Some (Inl e) \<Rightarrow> Some (Inl e)
            | Some (Inr s2) \<Rightarrow> read_xsdt s2) = Some (Inr s3)"
      using 1 by (simp add: r1_def)
    from map_then_frame [OF this] ok e1 read_xsdt_frame show ?thesis by simp
  next
    case False
    then have "s3 = s1" using 1 by (auto simp: r1_def split: if_splits)
    then show ?thesis using e1 ok by (simp add: frame_step_refl)
  qed
  then have ok3: "pool_ok (bt s3)" by (simp add: frame_step_def)
  have f2: "frame_step (amem s3, bt s3) (amem s6, bt s6)"
  proof (cases "xsdt (tabs s3) = 0")
    case False
    then have "s6 = s3" using 2 by (auto simp: r2_def split: if_splits)
    then show ?thesis using ok3 by (simp add: frame_step_refl)
  next
    case True
    define r where "r = (ucast (read32 (amem s3) (p + 16)) :: 64 word)"
    define s4 where "s4 = s3\<lparr>tabs := (tabs s3)\<lparr>rsdt := r\<rparr>\<rparr>"
    have "(case map_table s4 r of None \<Rightarrow> None | Some (Inl e) \<Rightarrow> Some (Inl e)
            | Some (Inr s5) \<Rightarrow> read_rsdt s5) = Some (Inr s6)"
      using 2 True by (auto simp: r2_def Let_def r_def s4_def split: if_splits)
    from map_then_frame [OF this] ok3 read_rsdt_frame show ?thesis by (simp add: s4_def)
  qed
  have e3: "amem s' = amem s6 \<and> bt s' = bt s6"
  proof -
    obtain pm' where "io_apic_loop (s6\<lparr>apm := pm'\<rparr>) 0 = Some s'"
      using 3 by (auto simp: r3_def split: option.splits)
    from io_apic_loop_mem [OF this] show ?thesis by simp
  qed
  from f1 f2 have "frame_step (amem s, bt s) (amem s6, bt s6)" by (rule frame_step_trans)
  then show ?thesis using e3 by simp
qed

lemma pool_ok_boot: "pool_ok boot_table"
  by (simp add: pool_ok_def boot_table_def KMEM_BOOT_PAGETABLE_LOADED_def
      KMEM_BOOT_PAGETABLE_END_def)

lemma acpi_init_frame:
  assumes "acpi_init m pm = Some (Inr s)"
  shows "frame_step (m, boot_table) (amem s, bt s)"
proof -
  obtain p where "acpi_tables \<lparr>amem = m, bt = boot_table, apm = pm,
        tabs = \<lparr>version = 0, rsdp = p, rsdt = 0, xsdt = 0, fadt = 0, madt = 0, mcfg = 0\<rparr>\<rparr>
      = Some (Inr s)"
    using assms by (auto simp: acpi_init_def split: option.splits if_splits)
  from acpi_tables_frame [OF this] pool_ok_boot show ?thesis by simp
qed

lemma walk_cells_nonzero:
  assumes "is_mapped m b a" and "c \<in> set (walk_cells m b a)"
  shows "m c \<noteq> 0"
  using assms unfolding is_mapped_def walk_cells_def
  by (auto simp: Let_def split: if_splits)

lemma walk_cells_same:
  assumes "\<forall>c\<in>set (walk_cells m b a). m' c = m c" and "root b' = root b"
  shows "walk_cells m' b' a = walk_cells m b a" and "is_mapped m' b' a = is_mapped m b a"
proof -
  let ?e4 = "entry (root b) (PML4E a)"
  let ?e3 = "entry (PGPTR (m ?e4)) (PDPTE a)"
  let ?e2 = "entry (PGPTR (m ?e3)) (PDE a)"
  let ?e1 = "entry (PGPTR (m ?e2)) (PTE a)"
  have 4: "m' ?e4 = m ?e4" using assms(1) by (auto simp: walk_cells_def Let_def split: if_splits)
  have 3: "m' ?e3 = m ?e3" if "m ?e4 \<noteq> 0"
    using assms(1) that by (auto simp: walk_cells_def Let_def split: if_splits)
  have 2: "m' ?e2 = m ?e2" if "m ?e4 \<noteq> 0" "m ?e3 \<noteq> 0" "m ?e3 AND PF_PS = 0"
    using assms(1) that by (auto simp: walk_cells_def Let_def split: if_splits)
  have 1: "m' ?e1 = m ?e1"
    if "m ?e4 \<noteq> 0" "m ?e3 \<noteq> 0" "m ?e3 AND PF_PS = 0" "m ?e2 \<noteq> 0" "m ?e2 AND PF_PS = 0"
    using assms(1) that by (auto simp: walk_cells_def Let_def split: if_splits)
  show "walk_cells m' b' a = walk_cells m b a"
    unfolding walk_cells_def assms(2) Let_def using 4 3 2 by auto
  show "is_mapped m' b' a = is_mapped m b a"
    unfolding is_mapped_def assms(2) Let_def using 4 3 2 1 by auto
qed

text \<open>
  Claim C10. The translation entries of an address are the cells the walk of \<open>is_mapped\<close>
  reads for it (\<open>walk_cells\<close>); for an address under a large entry the walk ends at that
  entry. If an address is mapped in the boot page table before \<open>acpi_init\<close> runs, and its
  entries lie outside the pool \<open>[0x14000, 0x20000)\<close> from which \<open>acpi_init\<close> takes new table
  pages (the loader's tables lie in \<open>[0x10000, 0x14000)\<close>), then \<open>acpi_init\<close>, when it
  returns, leaves each of these entries as it was: the walk reads the same cells, finds the
  same values, and the address is still mapped. And \<open>map_range\<close> passes over a page that
  \<open>is_mapped\<close> reports as mapped without calling \<open>create_page\<close>.
\<close>

theorem acpi_init_keeps_mapped:
  assumes "acpi_init m pm = Some (Inr s)"
    and "is_mapped m boot_table a"
    and "\<forall>c\<in>set (walk_cells m boot_table a). \<not> in_pool boot_table c"
  shows "walk_cells (amem s) (bt s) a = walk_cells m boot_table a \<and>
         (\<forall>c\<in>set (walk_cells m boot_table a). amem s c = m c) \<and>
         is_mapped (amem s) (bt s) a \<and>
         (\<forall>s0 a' tm fl. a' < tm \<longrightarrow> is_mapped (fst s0) (snd s0) a' \<longrightarrow>
            map_range_loop s0 a' tm fl = map_range_loop s0 (a' + PAGE_SIZE) tm fl)"
proof -
  note f = acpi_init_frame [OF assms(1)]
  have r: "root (bt s) = root boot_table" using f by (simp add: frame_step_def)
  have k: "\<forall>c\<in>set (walk_cells m boot_table a). amem s c = m c"
    using f assms(3) walk_cells_nonzero [OF assms(2)] by (simp add: frame_step_def)
  note w = walk_cells_same [OF k r]
  have l: "map_range_loop s0 a' tm fl = map_range_loop s0 (a' + PAGE_SIZE) tm fl"
    if "a' < tm" "is_mapped (fst s0) (snd s0) a'" for s0 a' tm fl
    using that by (subst map_range_loop.simps) simp
  show ?thesis using w k assms(2) l by blast
qed

text \<open>
  Witness for C10. The boot page table maps page \<open>0x1000\<close> through the tables at \<open>0x10000\<close>,
  \<open>0x11000\<close>, \<open>0x12000\<close> and \<open>0x13000\<close>, and \<open>[2 MiB, 4 MiB)\<close> through a large entry. The RSDP
  at \<open>0x9F800\<close> names an RSDT at \<open>0x7FE0000\<close>, which lists a MADT at \<open>0x7FE1000\<close>; both lie
  on unmapped pages, so \<open>acpi_init\<close> takes a page from the pool and adds entries. The
  entries of \<open>0x1000\<close> and of \<open>0x300000\<close> are as before.
\<close>

theorem acpi_init_keeps_mapped_witness:
  "\<exists>s. acpi_init ((\<lambda>_. 0)(0x10000 := 0x11003, 0x11000 := 0x12003, 0x12000 := 0x13003,
         0x12008 := 0x200083, 0x13008 := 0x1003, 0x9F800 := 0x2052545020445352,
         0x9F810 := 0x7FE0000, 0x7FE0000 := 0x2800000000, 0x7FE0020 := 0x7FE100000000000,
         0x7FE1000 := 0x2C43495041))
         \<lparr>regions = [], last_usable = 0\<rparr> = Some (Inr s) \<and>
       next_page (bt s) = 0x15000 \<and>
       amem s 0x121F8 = 0x14003 \<and>
       walk_cells (amem s) (bt s) 0x1000 = [0x10000, 0x11000, 0x12000, 0x13008] \<and>
       amem s 0x13008 = 0x1003 \<and>
       walk_cells (amem s) (bt s) 0x300000 = [0x10000, 0x11000, 0x12008] \<and>
       amem s 0x12008 = 0x200083"
proof -
  define m :: memory where "m = ((\<lambda>_. 0)(0x10000 := 0x11003, 0x11000 := 0x12003, 0x12000 := 0x13003,
         0x12008 := 0x200083, 0x13008 := 0x1003, 0x9F800 := 0x2052545020445352,
         0x9F810 := 0x7FE0000, 0x7FE0000 := 0x2800000000, 0x7FE0020 := 0x7FE100000000000,
         0x7FE1000 := 0x2C43495041))"
  define pm where "pm = \<lparr>regions = [], last_usable = 0\<rparr>"
  have "case acpi_init m pm of Some (Inr s) \<Rightarrow> next_page (bt s) = 0x15000 \<and> amem s 0x121F8 = 0x14003
        | _ \<Rightarrow> False"
    unfolding m_def pm_def by code_simp
  then obtain s where a: "acpi_init m pm = Some (Inr s)" and n: "next_page (bt s) = 0x15000"
    and v: "amem s 0x121F8 = 0x14003"
    by (auto split: option.splits sum.splits)
  have w1: "walk_cells m boot_table 0x1000 = [0x10000, 0x11000, 0x12000, 0x13008]"
    and w2: "walk_cells m boot_table 0x300000 = [0x10000, 0x11000, 0x12008]"
    and i1: "is_mapped m boot_table 0x1000" and i2: "is_mapped m boot_table 0x300000"
    unfolding m_def by code_simp+
  have p1: "\<forall>c\<in>set (walk_cells m boot_table 0x1000). \<not> in_pool boot_table c"
    and p2: "\<forall>c\<in>set (walk_cells m boot_table 0x300000). \<not> in_pool boot_table c"
    unfolding w1 w2 by code_simp+
  have v1: "m 0x13008 = 0x1003" and v2: "m 0x12008 = 0x200083" unfolding m_def by simp_all
  note t1 = acpi_init_keeps_mapped [OF a i1 p1]
  note t2 = acpi_init_keeps_mapped [OF a i2 p2]
  show ?thesis
    using a n v t1 t2 w1 w2 v1 v2 unfolding m_def pm_def by (intro exI [of _ s]) simp
qed

end
